theory Spec2Isabelle
  imports Main "HOL-Library.Multiset"
begin

section \<open>Tree entries returned by the file-details query\<close>

text \<open>
  The file-details query of \<^verbatim>\<open>getFileDetailsGrapqlQuery\<close> asks for entries with the
  fields \<^verbatim>\<open>name\<close>, \<^verbatim>\<open>type\<close>, \<^verbatim>\<open>path\<close> and \<^verbatim>\<open>object\<close>, where \<^verbatim>\<open>object\<close> carries
  \<^verbatim>\<open>entries\<close> when it is a tree. In the JSON that comes back \<^verbatim>\<open>object\<close> may be null or
  missing (\<open>None\<close>), and an object may lack \<^verbatim>\<open>entries\<close> (\<open>TreeObject None\<close>); an empty
  array is \<open>TreeObject (Some [])\<close>. Strings are lists of code units.
\<close>

datatype entry = Entry (name: string) (type: string) (path: string) (object: "tree_object option")
  and tree_object = TreeObject (entries: "entry list option")

section \<open>String helpers of the JavaScript runtime\<close>

text \<open>\<^verbatim>\<open>s.lastIndexOf(c)\<close> for a one-character search string: the greatest index holding
  \<open>c\<close>, or \<open>-1\<close> when there is none.\<close>

fun lastIndexOf :: "string \<Rightarrow> char \<Rightarrow> int" where
  "lastIndexOf [] c = - 1"
| "lastIndexOf (x # xs) c =
     (let r = lastIndexOf xs c
      in if 0 \<le> r then r + 1 else if x = c then 0 else - 1)"

text \<open>\<^verbatim>\<open>s.slice(start)\<close>: a negative start counts from the end of the string, and the
  start is clamped to the string.\<close>

definition slice :: "string \<Rightarrow> int \<Rightarrow> string" where
  "slice s start =
     (if start < 0 then drop (nat (int (length s) + start)) s else drop (nat start) s)"

section \<open>The traversal inside fetchSingleRepositoryData\<close>

text \<open>
  \<^verbatim>\<open>countBlobFiles\<close> is a closure over \<^verbatim>\<open>fileType\<close> and over the mutable variable
  \<^verbatim>\<open>fileTypePath\<close>. The variable is passed in and returned: the result is the number the
  JavaScript function returns together with the value of \<^verbatim>\<open>fileTypePath\<close> afterwards.
  \<^verbatim>\<open>!fileTypePath\<close> holds exactly for the empty string. \<open>reduceEntries\<close> is the
  \<^verbatim>\<open>entries.reduce((sum, subEntry) => sum + countBlobFiles(subEntry), 0)\<close> loop, with the
  running sum (\<open>acc\<close>) as an argument.
\<close>

fun countBlobFiles :: "string \<Rightarrow> entry \<Rightarrow> string \<Rightarrow> int \<times> string"
  and reduceEntries :: "string \<Rightarrow> entry list \<Rightarrow> int \<Rightarrow> string \<Rightarrow> int \<times> string" where
  "countBlobFiles fileType (Entry entryName ty pa ob) fileTypePath =
     (if ty = ''blob'' then
        (let lastDotIndex = lastIndexOf entryName (CHR ''.'');
             ext = slice entryName (lastDotIndex + 1)
         in (1, if ext = fileType \<and> fileTypePath = [] then pa else fileTypePath))
      else if ty = ''tree'' then
        (case ob of
           Some (TreeObject (Some subEntries)) \<Rightarrow> reduceEntries fileType subEntries 0 fileTypePath
         | _ \<Rightarrow> (0, fileTypePath))
      else (0, fileTypePath))"
| "reduceEntries fileType [] acc fileTypePath = (acc, fileTypePath)"
| "reduceEntries fileType (subEntry # rest) acc fileTypePath =
     (case countBlobFiles fileType subEntry fileTypePath of
        (n, fileTypePath') \<Rightarrow> reduceEntries fileType rest (acc + n) fileTypePath')"

text \<open>The expression \<^verbatim>\<open>entryName.slice(entryName.lastIndexOf(".") + 1)\<close> of
  \<^verbatim>\<open>countBlobFiles\<close>, named for the statements below.\<close>

definition extension :: "string \<Rightarrow> string" where
  "extension entryName = slice entryName (lastIndexOf entryName (CHR ''.'') + 1)"

section \<open>Upstream responses and failures\<close>

text \<open>
  A rejected promise or a thrown exception is a value: \<open>UpstreamError\<close> is a rejection
  of the GraphQL client or of \<^verbatim>\<open>fetch\<close> (with its message), \<open>TypeError\<close> is what
  JavaScript throws on a property access on \<^verbatim>\<open>null\<close> or \<^verbatim>\<open>undefined\<close>.
\<close>

datatype error = UpstreamError string | TypeError

text \<open>\<^verbatim>\<open>response.data.viewer.repository\<close> of the file-details query; \<^verbatim>\<open>id\<close> is
  requested and never read. \<open>repo_object\<close> is null when \<^verbatim>\<open>master:\<close> does not resolve.\<close>

record repository =
  repo_name :: string
  repo_owner_login :: string
  repo_diskUsage :: int
  repo_visibility :: string
  repo_object :: "tree_object option"

text \<open>\<^verbatim>\<open>data.viewer.repository\<close> of the content query: \<^verbatim>\<open>object\<close> may be null, and
  \<^verbatim>\<open>text\<close> is present only on a blob.\<close>

datatype blob_object = BlobObject (blob_text: "string option")

datatype content_repository = ContentRepository (content_object: "blob_object option")

text \<open>One node of \<^verbatim>\<open>viewer.repositories.nodes\<close>.\<close>

record repository_node =
  node_name :: string
  node_diskUsage :: int
  node_owner_login :: string

text \<open>The paging argument of a GraphQL connection; \<^verbatim>\<open>listRepositories\<close> sends
  \<^verbatim>\<open>repositories(last: 100)\<close>.\<close>

datatype connection_arg = First nat | Last nat

text \<open>
  The upstream service is a parameter. Each field answers one kind of request:
  \<^item> \<open>queryFileDetails repoName\<close>: \<^verbatim>\<open>client.query\<close> with
    \<^verbatim>\<open>getFileDetailsGrapqlQuery(repoName)\<close>, giving \<^verbatim>\<open>data.viewer.repository\<close>;
  \<^item> \<open>queryContent repoName fileTypePath\<close>: \<^verbatim>\<open>client.query\<close> with
    \<^verbatim>\<open>getContentForSpecificFileGraphqlQuery(repoName, fileTypePath)\<close>;
  \<^item> \<open>fetchJson url\<close>: \<^verbatim>\<open>(await fetch(url, ...)).json()\<close>, the decoded body, of any shape
    \<open>'w\<close>;
  \<^item> \<open>queryRepositories arg\<close>: the list query, giving \<^verbatim>\<open>data.viewer.repositories.nodes\<close>.
\<close>

record 'w upstream =
  queryFileDetails :: "string \<Rightarrow> error + repository option"
  queryContent :: "string \<Rightarrow> string \<Rightarrow> error + content_repository option"
  fetchJson :: "string \<Rightarrow> error + 'w"
  queryRepositories :: "connection_arg \<Rightarrow> error + repository_node list"

definition getActiveWebhooks :: "'w upstream \<Rightarrow> string \<Rightarrow> string \<Rightarrow> error + 'w" where
  "getActiveWebhooks up owner repoName =
     fetchJson up (''https://api.github.com/repos/'' @ owner @ ''/'' @ repoName @ ''/hooks'')"

section \<open>fetchSingleRepositoryData\<close>

text \<open>The query result after the three assignments of \<^verbatim>\<open>fetchSingleRepositoryData\<close>.\<close>

record 'w response =
  data :: "repository option"
  numberOfFiles :: "int option"
  activeWebhooks :: 'w
  contentOfSpecificFile :: "string option"

text \<open>
  \<^verbatim>\<open>repository.object?.entries.reduce(..., 0)\<close> with \<^verbatim>\<open>fileTypePath\<close> starting at
  \<^verbatim>\<open>""\<close>: the optional chain gives \<^verbatim>\<open>undefined\<close> for a null object and runs no
  callback; an object without \<^verbatim>\<open>entries\<close> makes \<^verbatim>\<open>.reduce\<close> a property access on
  \<^verbatim>\<open>undefined\<close>.
\<close>

definition countRootEntries :: "string \<Rightarrow> tree_object option \<Rightarrow> error + (int option \<times> string)" where
  "countRootEntries fileType ob =
     (case ob of
        None \<Rightarrow> Inr (None, [])
      | Some (TreeObject None) \<Rightarrow> Inl TypeError
      | Some (TreeObject (Some rootEntries)) \<Rightarrow>
          (case reduceEntries fileType rootEntries 0 [] of
             (n, fileTypePath) \<Rightarrow> Inr (Some n, fileTypePath)))"

definition contentText :: "content_repository \<Rightarrow> string option" where
  "contentText cr = (case content_object cr of None \<Rightarrow> None | Some b \<Rightarrow> blob_text b)"

definition fetchSingleRepositoryData ::
  "'w upstream \<Rightarrow> string \<Rightarrow> string \<Rightarrow> string \<Rightarrow> error + 'w response" where
  "fetchSingleRepositoryData up repoName fileType owner =
     (case queryFileDetails up repoName of
        Inl e \<Rightarrow> Inl e
      | Inr None \<Rightarrow> Inl TypeError
      | Inr (Some repo) \<Rightarrow>
          (case countRootEntries fileType (repo_object repo) of
             Inl e \<Rightarrow> Inl e
           | Inr (n, fileTypePath) \<Rightarrow>
               (case getActiveWebhooks up owner repoName of
                  Inl e \<Rightarrow> Inl e
                | Inr hooks \<Rightarrow>
                    (case queryContent up repoName fileTypePath of
                       Inl e \<Rightarrow> Inl e
                     | Inr None \<Rightarrow> Inl TypeError
                     | Inr (Some cr) \<Rightarrow>
                         Inr \<lparr>data = Some repo, numberOfFiles = n, activeWebhooks = hooks,
                              contentOfSpecificFile = contentText cr\<rparr>))))"

section \<open>The resolvers\<close>

subsection \<open>Promises\<close>

text \<open>
  Every call of \<^verbatim>\<open>fetchSingleRepositoryData\<close> is started before the first
  \<^verbatim>\<open>await\<close> of the loop, and the chains share no variable (\<^verbatim>\<open>fileTypePath\<close> belongs
  to one call), so a promise is modelled by the outcome it settles to. What the outcome
  does not tell is which of two rejections comes first in time; that is the parameter
  \<open>rejectsFirst\<close>: \<open>rejectsFirst i\<close> says that \<^verbatim>\<open>promises[i]\<close> rejects before
  \<^verbatim>\<open>promises[i + 1]\<close> when both reject. This is what the call returns whenever it
  settles; a rejection that nobody awaits yet is the subject of the loop with times
  further down.
\<close>

text \<open>\<^verbatim>\<open>promises[i]\<close>: \<^verbatim>\<open>undefined\<close> beyond the end of the array.\<close>

definition arrayGet :: "'a list \<Rightarrow> nat \<Rightarrow> 'a option" where
  "arrayGet xs i = (if i < length xs then Some (xs ! i) else None)"

definition rejection :: "(error + 'a) option \<Rightarrow> error option" where
  "rejection slot = (case slot of Some (Inl e) \<Rightarrow> Some e | _ \<Rightarrow> None)"

definition fulfilled :: "(error + 'a) option \<Rightarrow> 'a option" where
  "fulfilled slot = (case slot of Some (Inr v) \<Rightarrow> Some v | _ \<Rightarrow> None)"

text \<open>
  \<^verbatim>\<open>await Promise.all([a, b])\<close>: a slot that is not a promise (\<^verbatim>\<open>undefined\<close>) resolves
  to itself; the first rejection in time rejects the whole; otherwise the array of the two
  values, in the order of the slots.
\<close>

definition promiseAll2 ::
  "bool \<Rightarrow> (error + 'a) option \<Rightarrow> (error + 'a) option \<Rightarrow> error + 'a option list" where
  "promiseAll2 firstRejectsFirst a b =
     (case (rejection a, rejection b) of
        (Some e1, Some e2) \<Rightarrow> Inl (if firstRejectsFirst then e1 else e2)
      | (Some e1, None) \<Rightarrow> Inl e1
      | (None, Some e2) \<Rightarrow> Inl e2
      | (None, None) \<Rightarrow> Inr [fulfilled a, fulfilled b])"

text \<open>The \<^verbatim>\<open>for (let i = 0; i < promises.length; i += 2)\<close> loop of
  \<^verbatim>\<open>runMultiplePromiseAllInLoop\<close>, from index \<open>i\<close> with the \<^verbatim>\<open>results\<close> pushed so far.\<close>

function runMultiplePromiseAllInLoop_from ::
  "(nat \<Rightarrow> bool) \<Rightarrow> (error + 'a) list \<Rightarrow> nat \<Rightarrow> 'a option list list \<Rightarrow> error + 'a option list list" where
  "runMultiplePromiseAllInLoop_from rejectsFirst promises i results =
     (if i < length promises then
        (case promiseAll2 (rejectsFirst i) (arrayGet promises i) (arrayGet promises (i + 1)) of
           Inl e \<Rightarrow> Inl e
         | Inr pair \<Rightarrow> runMultiplePromiseAllInLoop_from rejectsFirst promises (i + 2) (results @ [pair]))
      else Inr results)"
  by pat_completeness auto
termination
  by (relation "measure (\<lambda>(rejectsFirst, promises, i, results). length promises - i)") auto

definition runMultiplePromiseAllInLoop ::
  "(nat \<Rightarrow> bool) \<Rightarrow> (error + 'a) list \<Rightarrow> error + 'a option list list" where
  "runMultiplePromiseAllInLoop rejectsFirst promises =
     runMultiplePromiseAllInLoop_from rejectsFirst promises 0 []"

subsection \<open>fetchRepositoriesDetails\<close>

record 'w RepositoryDetails =
  details_name :: string
  details_visibility :: string
  details_size :: int
  details_owner :: string
  details_numberOfFiles :: "int option"
  details_fileContent :: "string option"
  details_activeWebhooks :: 'w

text \<open>The callback of the final \<^verbatim>\<open>map\<close>: \<^verbatim>\<open>undefined\<close> for a falsy element, a
  \<open>TypeError\<close> when \<^verbatim>\<open>data.data.viewer.repository\<close> is null.\<close>

definition toDetails :: "'w response option \<Rightarrow> error + 'w RepositoryDetails option" where
  "toDetails slot =
     (case slot of
        None \<Rightarrow> Inr None
      | Some d \<Rightarrow>
          (case data d of
             None \<Rightarrow> Inl TypeError
           | Some repo \<Rightarrow>
               Inr (Some \<lparr>details_name = repo_name repo,
                          details_visibility = repo_visibility repo,
                          details_size = repo_diskUsage repo,
                          details_owner = repo_owner_login repo,
                          details_numberOfFiles = numberOfFiles d,
                          details_fileContent = contentOfSpecificFile d,
                          details_activeWebhooks = activeWebhooks d\<rparr>)))"

text \<open>\<^verbatim>\<open>Array.prototype.map\<close> with a callback that may throw: the first exception, in
  index order, ends the map.\<close>

fun mapThrowing :: "('a \<Rightarrow> error + 'b) \<Rightarrow> 'a list \<Rightarrow> error + 'b list" where
  "mapThrowing f [] = Inr []"
| "mapThrowing f (x # xs) =
     (case f x of
        Inl e \<Rightarrow> Inl e
      | Inr y \<Rightarrow> (case mapThrowing f xs of Inl e \<Rightarrow> Inl e | Inr ys \<Rightarrow> Inr (y # ys)))"

definition fetchRepositoriesDetails ::
  "(nat \<Rightarrow> bool) \<Rightarrow> 'w upstream \<Rightarrow> string list \<Rightarrow> string \<Rightarrow> string \<Rightarrow>
     error + 'w RepositoryDetails option list" where
  "fetchRepositoriesDetails rejectsFirst up repoNames fileType owner =
     (let promises = map (\<lambda>repoName. fetchSingleRepositoryData up repoName fileType owner) repoNames
      in case runMultiplePromiseAllInLoop rejectsFirst promises of
           Inl e \<Rightarrow> Inl e
         | Inr results \<Rightarrow> mapThrowing toDetails (filter (\<lambda>d. d \<noteq> None) (concat results)))"

subsection \<open>Rejections that nobody awaits yet\<close>

text \<open>
  \<^verbatim>\<open>Promise.all([promises[i], promises[i + 1]])\<close> is the only place where a promise of
  the array gets a handler, and the loop reaches it for a pair only when every earlier
  pair has resolved. The file registers no \<^verbatim>\<open>unhandledRejection\<close> listener, so a promise
  that rejects while it has no handler ends the Node process instead of failing the call.
  To follow this the promises need their times: \<open>settledAt j\<close> is the time at which
  \<^verbatim>\<open>promises[j]\<close> settles, and \<open>now\<close> the time at which the loop arrives at index \<open>i\<close>
  (0 at the start, when no promise has settled yet). What happens after the call has
  settled is not part of its outcome.
\<close>

datatype 'a call_outcome = Settled "error + 'a" | ProcessExit

text \<open>The time at which \<^verbatim>\<open>await Promise.all([promises[i], promises[i + 1]])\<close>, begun at
  \<open>now\<close>, goes on: with the first rejection of the two if there is one, with the later
  of the fulfilments otherwise.\<close>

definition awaitedUntil :: "(nat \<Rightarrow> nat) \<Rightarrow> (error + 'a) list \<Rightarrow> nat \<Rightarrow> nat \<Rightarrow> nat" where
  "awaitedUntil settledAt promises i now =
     max now
       (case (rejection (arrayGet promises i), rejection (arrayGet promises (i + 1))) of
          (Some e1, Some e2) \<Rightarrow> min (settledAt i) (settledAt (i + 1))
        | (Some e1, None) \<Rightarrow> settledAt i
        | (None, Some e2) \<Rightarrow> settledAt (i + 1)
        | (None, None) \<Rightarrow>
            (if i + 1 < length promises then max (settledAt i) (settledAt (i + 1))
             else settledAt i))"

text \<open>A promise of a later pair that rejects before that time has no handler yet.\<close>

definition unhandledBefore :: "(nat \<Rightarrow> nat) \<Rightarrow> (error + 'a) list \<Rightarrow> nat \<Rightarrow> nat \<Rightarrow> bool" where
  "unhandledBefore settledAt promises i until =
     list_ex (\<lambda>j. rejection (arrayGet promises j) \<noteq> None \<and> settledAt j < until)
       [i + 2 ..< length promises]"

function runMultiplePromiseAllInLoop_timed ::
  "(nat \<Rightarrow> nat) \<Rightarrow> (error + 'a) list \<Rightarrow> nat \<Rightarrow> nat \<Rightarrow> 'a option list list \<Rightarrow>
     'a option list list call_outcome" where
  "runMultiplePromiseAllInLoop_timed settledAt promises i now results =
     (if i < length promises then
        (if unhandledBefore settledAt promises i (awaitedUntil settledAt promises i now)
         then ProcessExit
         else
           (case promiseAll2 (settledAt i < settledAt (i + 1))
                   (arrayGet promises i) (arrayGet promises (i + 1)) of
              Inl e \<Rightarrow> Settled (Inl e)
            | Inr pair \<Rightarrow>
                runMultiplePromiseAllInLoop_timed settledAt promises (i + 2)
                  (awaitedUntil settledAt promises i now) (results @ [pair])))
      else Settled (Inr results))"
  by pat_completeness auto
termination
  by (relation "measure (\<lambda>(settledAt, promises, i, now, results). length promises - i)") auto

definition fetchRepositoriesDetails_timed ::
  "(nat \<Rightarrow> nat) \<Rightarrow> 'w upstream \<Rightarrow> string list \<Rightarrow> string \<Rightarrow> string \<Rightarrow>
     'w RepositoryDetails option list call_outcome" where
  "fetchRepositoriesDetails_timed settledAt up repoNames fileType owner =
     (let promises = map (\<lambda>repoName. fetchSingleRepositoryData up repoName fileType owner) repoNames
      in case runMultiplePromiseAllInLoop_timed settledAt promises 0 0 [] of
           ProcessExit \<Rightarrow> ProcessExit
         | Settled (Inl e) \<Rightarrow> Settled (Inl e)
         | Settled (Inr results) \<Rightarrow>
             Settled (mapThrowing toDetails (filter (\<lambda>d. d \<noteq> None) (concat results))))"

subsection \<open>listRepositories\<close>

record Repository =
  summary_name :: string
  summary_owner :: string
  summary_size :: int

text \<open>The method of \<^verbatim>\<open>GitHubAPI\<close>: one query, \<^verbatim>\<open>repositories(last: 100)\<close>.\<close>

definition GitHubAPI_listRepositories :: "'w upstream \<Rightarrow> error + repository_node list" where
  "GitHubAPI_listRepositories up = queryRepositories up (Last 100)"

text \<open>The callback of the \<^verbatim>\<open>map\<close> over \<^verbatim>\<open>nodes\<close>.\<close>

definition toRepository :: "repository_node \<Rightarrow> Repository" where
  "toRepository d =
     \<lparr>summary_name = node_name d, summary_owner = node_owner_login d,
      summary_size = node_diskUsage d\<rparr>"

definition listRepositories :: "'w upstream \<Rightarrow> error + Repository list" where
  "listRepositories up =
     (case GitHubAPI_listRepositories up of
        Inl e \<Rightarrow> Inl e
      | Inr nodes \<Rightarrow> Inr (map toRepository nodes))"

text \<open>
  What the upstream answers to a paging argument on a connection whose nodes are \<open>xs\<close> in
  the upstream's order, as the GraphQL cursor-connection convention that GitHub follows has
  it: \<^verbatim>\<open>first: n\<close> selects the leading \<open>n\<close> nodes, \<^verbatim>\<open>last: n\<close> the trailing \<open>n\<close>. It is a
  statement about the upstream, used only as a hypothesis on \<open>queryRepositories\<close>.
\<close>

definition connection_nodes :: "connection_arg \<Rightarrow> 'a list \<Rightarrow> 'a list" where
  "connection_nodes arg xs =
     (case arg of First n \<Rightarrow> take n xs | Last n \<Rightarrow> drop (length xs - n) xs)"

section \<open>The specification's tree functions\<close>

text \<open>
  \<open>countFiles\<close> follows the words of the specification, not the code: 1 for every file
  (\<^verbatim>\<open>blob\<close>) entry, the count of the children for a directory (\<^verbatim>\<open>tree\<close>) entry that
  carries expanded children, 0 for a directory entry without them.
\<close>

fun countFileEntry :: "entry \<Rightarrow> int" and countFiles :: "entry list \<Rightarrow> int" where
  "countFileEntry (Entry entryName ty pa ob) =
     (if ty = ''blob'' then 1
      else if ty = ''tree'' then
        (case ob of Some (TreeObject (Some children)) \<Rightarrow> countFiles children | _ \<Rightarrow> 0)
      else 0)"
| "countFiles [] = 0"
| "countFiles (e # es) = countFileEntry e + countFiles es"

text \<open>The file entries of a tree in depth-first pre-order: a file is visited where it
  stands, an expanded directory is replaced by the visit of its children.\<close>

fun preorderFilesOf :: "entry \<Rightarrow> entry list" and preorderFiles :: "entry list \<Rightarrow> entry list" where
  "preorderFilesOf (Entry entryName ty pa ob) =
     (if ty = ''blob'' then [Entry entryName ty pa ob]
      else if ty = ''tree'' then
        (case ob of Some (TreeObject (Some children)) \<Rightarrow> preorderFiles children | _ \<Rightarrow> [])
      else [])"
| "preorderFiles [] = []"
| "preorderFiles (e # es) = preorderFilesOf e @ preorderFiles es"

text \<open>The extension in the specification's words: the substring after the last \<^verbatim>\<open>.\<close> of
  the name, the whole name when it has none.\<close>

definition substringAfterLastDot :: "string \<Rightarrow> string" where
  "substringAfterLastDot s = rev (takeWhile (\<lambda>c. c \<noteq> CHR ''.'') (rev s))"

text \<open>\<open>findFirstPathOfType\<close> in the specification's words: the path of the first file
  entry, in pre-order, whose extension equals \<open>fileType\<close>; empty when there is none.\<close>

definition findFirstPathOfType :: "entry list \<Rightarrow> string \<Rightarrow> string" where
  "findFirstPathOfType es fileType =
     (case find (\<lambda>f. substringAfterLastDot (name f) = fileType) (preorderFiles es) of
        None \<Rightarrow> []
      | Some f \<Rightarrow> path f)"

text \<open>
  The same with the one condition the code adds: \<^verbatim>\<open>fileTypePath\<close> doubles as the
  "nothing found yet" flag, so a matching file whose path is the empty string leaves the
  search open. \<open>selectPath fileType fileTypePath files\<close> is the variable after the files
  \<open>files\<close> have been visited in this order.
\<close>

definition matchesType :: "string \<Rightarrow> entry \<Rightarrow> bool" where
  "matchesType fileType f = (substringAfterLastDot (name f) = fileType \<and> path f \<noteq> [])"

definition selectPath :: "string \<Rightarrow> string \<Rightarrow> entry list \<Rightarrow> string" where
  "selectPath fileType fileTypePath files =
     (if fileTypePath \<noteq> [] then fileTypePath
      else case find (matchesType fileType) files of None \<Rightarrow> [] | Some f \<Rightarrow> path f)"

definition firstNonEmptyPathOfType :: "entry list \<Rightarrow> string \<Rightarrow> string" where
  "firstNonEmptyPathOfType es fileType = selectPath fileType [] (preorderFiles es)"

text \<open>
  Reordering at any level: two sequences are related when one is a permutation of the
  other, when they differ in the order of the children of one expanded directory, or by
  any chain of such steps.
\<close>

inductive reorder :: "entry list \<Rightarrow> entry list \<Rightarrow> bool" where
  top: "mset es = mset es' \<Longrightarrow> reorder es es'"
| inside: "reorder cs cs' \<Longrightarrow>
    reorder (before @ Entry n t p (Some (TreeObject (Some cs))) # after)
            (before @ Entry n t p (Some (TreeObject (Some cs'))) # after)"
| chain: "reorder es es' \<Longrightarrow> reorder es' es'' \<Longrightarrow> reorder es es''"

text \<open>An entry put inside a chain of expanded directories, one per (name, path) pair,
  each directory holding nothing else.\<close>

fun wrapInDirectories :: "(string \<times> string) list \<Rightarrow> entry \<Rightarrow> entry" where
  "wrapInDirectories [] e = e"
| "wrapInDirectories ((n, p) # ds) e =
     Entry n ''tree'' p (Some (TreeObject (Some [wrapInDirectories ds e])))"

section \<open>Sample inputs\<close>

definition sampleEntries :: "entry list" where
  "sampleEntries =
     [Entry ''README'' ''blob'' ''README'' None,
      Entry ''src'' ''tree'' ''src'' (Some (TreeObject (Some
        [Entry ''ci.yml'' ''blob'' ''src/ci.yml'' None,
         Entry ''lib'' ''tree'' ''src/lib'' (Some (TreeObject (Some
           [Entry ''deep.yml'' ''blob'' ''src/lib/deep.yml'' None])))]))),
      Entry ''top.yml'' ''blob'' ''top.yml'' None,
      Entry ''vendor'' ''tree'' ''vendor'' None]"

definition sampleRepository :: "string \<Rightarrow> tree_object option \<Rightarrow> repository" where
  "sampleRepository repoName ob =
     \<lparr>repo_name = repoName, repo_owner_login = ''alice'', repo_diskUsage = 7,
      repo_visibility = ''PUBLIC'', repo_object = ob\<rparr>"

definition sampleNodes :: "repository_node list" where
  "sampleNodes =
     map (\<lambda>i. \<lparr>node_name = ''repo'', node_diskUsage = int i, node_owner_login = ''alice''\<rparr>)
       [0..<101]"

text \<open>
  An upstream whose repositories all belong to \<^verbatim>\<open>alice\<close>: the tree fetch fails for
  \<^verbatim>\<open>b\<close>, \<^verbatim>\<open>ghost\<close> comes back null, \<^verbatim>\<open>main-only\<close> has no \<^verbatim>\<open>master\<close> branch, the root
  object of \<^verbatim>\<open>odd\<close> has no entries; the hooks endpoint answers with the URL it was asked
  for; the viewer has 101 repositories.
\<close>

definition sampleUpstream :: "string upstream" where
  "sampleUpstream =
     \<lparr>queryFileDetails = (\<lambda>repoName.
        if repoName = ''b'' then Inl (UpstreamError ''tree fetch failed'')
        else if repoName = ''ghost'' then Inr None
        else if repoName = ''main-only'' then Inr (Some (sampleRepository repoName None))
        else if repoName = ''odd'' then
          Inr (Some (sampleRepository repoName (Some (TreeObject None))))
        else Inr (Some (sampleRepository repoName (Some (TreeObject (Some sampleEntries)))))),
      queryContent = (\<lambda>repoName fileTypePath.
        Inr (Some (ContentRepository (Some (BlobObject
          (if fileTypePath = [] then None else Some (''content of '' @ fileTypePath))))))),
      fetchJson = (\<lambda>url. Inr url),
      queryRepositories = (\<lambda>arg. Inr (connection_nodes arg sampleNodes))\<rparr>"

text \<open>What the sample upstream makes of an ordinary repository name: the resolved chain
  and the record assembled from it.\<close>

definition sampleResponse :: "string \<Rightarrow> string \<Rightarrow> string option \<Rightarrow> string response" where
  "sampleResponse repoName owner content =
     \<lparr>data = Some (sampleRepository repoName (Some (TreeObject (Some sampleEntries)))),
      numberOfFiles = Some 4,
      activeWebhooks = ''https://api.github.com/repos/'' @ owner @ ''/'' @ repoName @ ''/hooks'',
      contentOfSpecificFile = content\<rparr>"

definition sampleDetails :: "string \<Rightarrow> string \<Rightarrow> string option \<Rightarrow> string RepositoryDetails" where
  "sampleDetails repoName owner content =
     \<lparr>details_name = repoName, details_visibility = ''PUBLIC'', details_size = 7,
      details_owner = ''alice'', details_numberOfFiles = Some 4, details_fileContent = content,
      details_activeWebhooks = ''https://api.github.com/repos/'' @ owner @ ''/'' @ repoName @ ''/hooks''\<rparr>"

section \<open>Helper lemmas\<close>

subsection \<open>Strings\<close>

lemma lastIndexOf_none: "c \<notin> set s \<Longrightarrow> lastIndexOf s c = - 1"
  by (induction s) (auto simp: Let_def)

lemma lastIndexOf_nonneg: "0 \<le> lastIndexOf s c \<longleftrightarrow> c \<in> set s"
  by (induction s) (auto simp: Let_def)

lemma lastIndexOf_lower: "- 1 \<le> lastIndexOf s c"
  by (induction s) (auto simp: Let_def)

lemma drop_lastIndexOf:
  "drop (nat (lastIndexOf s c + 1)) s = rev (takeWhile (\<lambda>x. x \<noteq> c) (rev s))"
proof (induction s)
  case Nil
  show ?case by simp
next
  case (Cons x xs)
  show ?case
  proof (cases "c \<in> set xs")
    case True
    then have r: "0 \<le> lastIndexOf xs c" by (simp add: lastIndexOf_nonneg)
    then have "nat (lastIndexOf xs c + 1 + 1) = Suc (nat (lastIndexOf xs c + 1))" by simp
    with r True Cons show ?thesis
      by (simp add: Let_def)
  next
    case False
    then have r: "lastIndexOf xs c = - 1" by (simp add: lastIndexOf_none)
    have tw: "takeWhile (\<lambda>x. x \<noteq> c) (rev xs @ ys) = rev xs @ takeWhile (\<lambda>x. x \<noteq> c) ys" for ys
      using False by (intro takeWhile_append2) auto
    from r show ?thesis
      by (cases "x = c") (simp_all add: Let_def tw)
  qed
qed

lemma extension_substringAfterLastDot: "extension s = substringAfterLastDot s"
  using lastIndexOf_lower [of s "CHR ''.''"]
  by (simp add: extension_def slice_def substringAfterLastDot_def drop_lastIndexOf)

lemma extension_no_dot: "CHR ''.'' \<notin> set s \<Longrightarrow> extension s = s"
  by (simp add: extension_def slice_def lastIndexOf_none)

subsection \<open>The traversal\<close>

lemma traversal_count:
  "fst (countBlobFiles fileType e st) = countFileEntry e"
  "fst (reduceEntries fileType es acc st) = acc + countFiles es"
proof (induction fileType e st and fileType es acc st rule: countBlobFiles_reduceEntries.induct)
  case (1 fileType entryName ty pa ob fileTypePath)
  then show ?case
    by (simp add: Let_def split: option.splits tree_object.splits)
next
  case (2 fileType acc fileTypePath)
  show ?case by simp
next
  case (3 fileType subEntry rest acc fileTypePath)
  then show ?case
    by (simp split: prod.splits) (metis fst_conv)
qed

lemma find_append_cases:
  "find P (xs @ ys) = (case find P xs of None \<Rightarrow> find P ys | Some x \<Rightarrow> Some x)"
  by (induction xs) auto

lemma find_matchesType_path: "find (matchesType fileType) fs = Some f \<Longrightarrow> path f \<noteq> []"
  by (induction fs) (auto simp: matchesType_def split: if_splits)

lemma selectPath_append:
  "selectPath fileType st (fs @ gs) = selectPath fileType (selectPath fileType st fs) gs"
  by (auto simp: selectPath_def find_append_cases dest: find_matchesType_path split: option.splits)

lemma traversal_path:
  "snd (countBlobFiles fileType e st) = selectPath fileType st (preorderFilesOf e)"
  "snd (reduceEntries fileType es acc st) = selectPath fileType st (preorderFiles es)"
proof (induction fileType e st and fileType es acc st rule: countBlobFiles_reduceEntries.induct)
  case (1 fileType entryName ty pa ob fileTypePath)
  then show ?case
    by (auto simp: Let_def selectPath_def matchesType_def extension_def [symmetric]
          extension_substringAfterLastDot split: option.splits tree_object.splits)
next
  case (2 fileType acc fileTypePath)
  show ?case by (simp add: selectPath_def)
next
  case (3 fileType subEntry rest acc fileTypePath)
  then show ?case
    by (simp add: selectPath_append split: prod.splits) (metis snd_conv)
qed

lemma countFiles_nonneg: "0 \<le> countFileEntry e" "0 \<le> countFiles es"
  by (induction e and es rule: countFileEntry_countFiles.induct)
     (auto split: option.splits tree_object.splits)

lemma countFiles_length:
  "countFileEntry e = int (length (preorderFilesOf e))"
  "countFiles es = int (length (preorderFiles es))"
  by (induction e and es rule: countFileEntry_countFiles.induct)
     (auto split: option.splits tree_object.splits)

lemma countFiles_sum_list: "countFiles es = sum_list (map countFileEntry es)"
  by (induction es) auto

lemma countFiles_append: "countFiles (xs @ ys) = countFiles xs + countFiles ys"
  by (induction xs) auto

lemma countFiles_mset: "mset es = mset es' \<Longrightarrow> countFiles es = countFiles es'"
proof -
  assume "mset es = mset es'"
  then have "mset (map countFileEntry es) = mset (map countFileEntry es')"
    by (metis mset_map)
  then have "sum_list (map countFileEntry es) = sum_list (map countFileEntry es')"
    by (metis sum_mset_sum_list)
  then show ?thesis by (simp add: countFiles_sum_list)
qed

lemma countFiles_reorder: "reorder es es' \<Longrightarrow> countFiles es = countFiles es'"
proof (induction rule: reorder.induct)
  case (top es es')
  then show ?case by (rule countFiles_mset)
next
  case (inside cs cs' before n t p after)
  then show ?case by (simp add: countFiles_append)
next
  case (chain es es' es'')
  then show ?case by simp
qed

lemma countBlobFiles_singleton_directory:
  "countBlobFiles fileType (Entry n ''tree'' p (Some (TreeObject (Some [e])))) st =
   countBlobFiles fileType e st"
  by (simp split: prod.splits)

section \<open>The file count\<close>

text \<open>
  C4. For every sequence of tree entries the number the code stores in
  \<^verbatim>\<open>numberOfFiles\<close> is the specification's count: the sum over the entries of 1 for a
  \<^verbatim>\<open>blob\<close>, of the count of the children for a \<^verbatim>\<open>tree\<close> that carries expanded children,
  and of 0 for a \<^verbatim>\<open>tree\<close> without them. The count of the empty sequence is 0, the count is
  never negative, and it depends neither on \<^verbatim>\<open>fileType\<close> nor on the value the mutable
  \<^verbatim>\<open>fileTypePath\<close> has: the same entries always give the same number.
\<close>

theorem countFiles_is_sum_over_entries:
  "(\<exists>p. countRootEntries fileType (Some (TreeObject (Some es))) = Inr (Some (countFiles es), p))
   \<and> fst (reduceEntries fileType es 0 fileTypePath) = countFiles es
   \<and> fst (countBlobFiles fileType e fileTypePath) = countFileEntry e
   \<and> countFiles es = sum_list (map countFileEntry es)
   \<and> countFileEntry (Entry entryName ''blob'' pa ob) = 1
   \<and> countFileEntry (Entry entryName ''tree'' pa (Some (TreeObject (Some children)))) = countFiles children
   \<and> countFileEntry (Entry entryName ''tree'' pa (Some (TreeObject None))) = 0
   \<and> countFileEntry (Entry entryName ''tree'' pa None) = 0
   \<and> countFiles [] = 0
   \<and> 0 \<le> countFiles es"
proof -
  have "\<exists>p. countRootEntries fileType (Some (TreeObject (Some es))) = Inr (Some (countFiles es), p)"
    using traversal_count(2) [of fileType es 0 "[]"]
    by (auto simp: countRootEntries_def split: prod.splits)
  then show ?thesis
    by (simp add: traversal_count countFiles_nonneg countFiles_sum_list [symmetric])
qed

section \<open>Extensions of names without a dot\<close>

text \<open>
  C8. For a file entry whose name contains no \<^verbatim>\<open>.\<close> the computed extension is the whole
  name; it equals \<open>fileType\<close> exactly when \<open>fileType\<close> is that whole name (so the empty name
  matches the empty \<open>fileType\<close>), and on a fresh search the entry's path is selected in
  that case and in no other.
\<close>

theorem extension_without_dot_is_whole_name:
  assumes "CHR ''.'' \<notin> set (name e)" and "type e = ''blob''"
  shows "extension (name e) = name e
    \<and> (extension (name e) = fileType \<longleftrightarrow> fileType = name e)
    \<and> countBlobFiles fileType e [] = (1, if fileType = name e then path e else [])"
proof -
  have ext: "extension (name e) = name e"
    using assms(1) by (rule extension_no_dot)
  have "countBlobFiles fileType e [] = (1, if fileType = name e then path e else [])"
    using assms(2) ext by (cases e) (auto simp: Let_def extension_def [symmetric])
  with ext show ?thesis by auto
qed

theorem extension_without_dot_witness:
  "extension ''Makefile'' = ''Makefile''
   \<and> countBlobFiles ''Makefile'' (Entry ''Makefile'' ''blob'' ''build/Makefile'' None) [] = (1, ''build/Makefile'')
   \<and> countBlobFiles ''yml'' (Entry ''Makefile'' ''blob'' ''build/Makefile'' None) [] = (1, [])
   \<and> countBlobFiles [] (Entry [] ''blob'' ''x'' None) [] = (1, ''x'')"
  using extension_without_dot_is_whole_name [of "Entry ''Makefile'' ''blob'' ''build/Makefile'' None" "''Makefile''"]
    extension_without_dot_is_whole_name [of "Entry ''Makefile'' ''blob'' ''build/Makefile'' None" "''yml''"]
    extension_without_dot_is_whole_name [of "Entry [] ''blob'' ''x'' None" "[]"]
  by simp

section \<open>Order of the entries\<close>

text \<open>
  C9. The file count is the same for a sequence of entries and for every reordering of
  it, at the top level or among the children of any expanded directory at any depth: it
  depends on the kinds of the entries and on their children, not on their order.
\<close>

theorem countFiles_order_invariant:
  assumes "reorder es es'"
  shows "fst (reduceEntries fileType es 0 fileTypePath) = fst (reduceEntries fileType es' 0 fileTypePath)
    \<and> countFiles es = countFiles es'"
  using countFiles_reorder [OF assms] by (simp add: traversal_count)

theorem countFiles_order_invariant_witness:
  "reorder
     [Entry ''x'' ''blob'' ''x'' None,
      Entry ''d'' ''tree'' ''d'' (Some (TreeObject (Some
        [Entry ''y'' ''blob'' ''d/y'' None, Entry ''e'' ''tree'' ''d/e'' None])))]
     [Entry ''d'' ''tree'' ''d'' (Some (TreeObject (Some
        [Entry ''e'' ''tree'' ''d/e'' None, Entry ''y'' ''blob'' ''d/y'' None]))),
      Entry ''x'' ''blob'' ''x'' None]
   \<and> fst (reduceEntries ''yml''
       [Entry ''d'' ''tree'' ''d'' (Some (TreeObject (Some
          [Entry ''e'' ''tree'' ''d/e'' None, Entry ''y'' ''blob'' ''d/y'' None]))),
        Entry ''x'' ''blob'' ''x'' None] 0 []) = 2"
proof -
  let ?x = "Entry ''x'' ''blob'' ''x'' None"
  let ?y = "Entry ''y'' ''blob'' ''d/y'' None"
  let ?e = "Entry ''e'' ''tree'' ''d/e'' None"
  let ?d = "\<lambda>cs. Entry ''d'' ''tree'' ''d'' (Some (TreeObject (Some cs)))"
  have "reorder [?y, ?e] [?e, ?y]"
    by (rule reorder.top) simp
  then have "reorder ([?x] @ ?d [?y, ?e] # []) ([?x] @ ?d [?e, ?y] # [])"
    by (rule reorder.inside)
  moreover have "reorder [?x, ?d [?e, ?y]] [?d [?e, ?y], ?x]"
    by (rule reorder.top) simp
  ultimately have r: "reorder [?x, ?d [?y, ?e]] [?d [?e, ?y], ?x]"
    by (auto intro: reorder.chain)
  have "fst (reduceEntries ''yml'' [?x, ?d [?y, ?e]] 0 []) = 2"
    by simp
  with r countFiles_order_invariant [OF r, of "''yml''" "[]"] show ?thesis
    by simp
qed

section \<open>Depth of the traversal\<close>

text \<open>
  C10. The traversal has no depth bound of its own. Putting an entry inside any number
  of expanded directories changes neither what \<^verbatim>\<open>countBlobFiles\<close> returns for it nor the
  path it selects, and for every tree the count is the number of file entries reachable
  through expanded directories at whatever depth, each of them a candidate for the
  selected path in pre-order.
\<close>

theorem traversal_has_no_depth_bound:
  "countBlobFiles fileType (wrapInDirectories ds e) fileTypePath = countBlobFiles fileType e fileTypePath
   \<and> fst (reduceEntries fileType es 0 fileTypePath) = int (length (preorderFiles es))
   \<and> snd (reduceEntries fileType es 0 fileTypePath) = selectPath fileType fileTypePath (preorderFiles es)
   \<and> preorderFilesOf (wrapInDirectories ds e) = preorderFilesOf e"
proof -
  have "countBlobFiles fileType (wrapInDirectories ds e) fileTypePath = countBlobFiles fileType e fileTypePath"
  proof (induction ds)
    case Nil
    show ?case by simp
  next
    case (Cons d ds)
    obtain n p where d: "d = (n, p)" by (cases d)
    show ?case
      unfolding d wrapInDirectories.simps countBlobFiles_singleton_directory by (rule Cons.IH)
  qed
  moreover have "preorderFilesOf (wrapInDirectories ds e) = preorderFilesOf e"
    by (induction ds) auto
  ultimately show ?thesis
    by (simp add: traversal_count traversal_path countFiles_length)
qed


section \<open>One repository's chain\<close>

lemma countRootEntries_entries:
  "countRootEntries fileType (Some (TreeObject (Some es))) =
   Inr (Some (countFiles es), firstNonEmptyPathOfType es fileType)"
  using traversal_count(2) [of fileType es 0 "[]"] traversal_path(2) [of fileType es 0 "[]"]
  by (auto simp: countRootEntries_def firstNonEmptyPathOfType_def split: prod.splits)

lemma fetchSingleRepositoryData_resolved:
  assumes "fetchSingleRepositoryData up repoName fileType owner = Inr r"
  shows "\<exists>repo n fileTypePath cr.
      queryFileDetails up repoName = Inr (Some repo)
    \<and> countRootEntries fileType (repo_object repo) = Inr (n, fileTypePath)
    \<and> getActiveWebhooks up owner repoName = Inr (activeWebhooks r)
    \<and> queryContent up repoName fileTypePath = Inr (Some cr)
    \<and> r = \<lparr>data = Some repo, numberOfFiles = n, activeWebhooks = activeWebhooks r,
           contentOfSpecificFile = contentText cr\<rparr>"
  using assms
  by (auto simp: fetchSingleRepositoryData_def split: sum.splits option.splits prod.splits)

lemma selectPath_no_match:
  "\<forall>f\<in>set files. substringAfterLastDot (name f) \<noteq> fileType \<Longrightarrow> selectPath fileType [] files = []"
  by (induction files) (auto simp: selectPath_def matchesType_def)

lemma find_matchesType_nonempty_paths:
  "\<forall>f\<in>set files. path f \<noteq> [] \<Longrightarrow>
   find (matchesType fileType) files = find (\<lambda>f. substringAfterLastDot (name f) = fileType) files"
  by (induction files) (auto simp: matchesType_def)

lemma firstNonEmptyPathOfType_nonempty_paths:
  "\<forall>f\<in>set (preorderFiles es). path f \<noteq> [] \<Longrightarrow>
   firstNonEmptyPathOfType es fileType = findFirstPathOfType es fileType"
  by (simp add: firstNonEmptyPathOfType_def selectPath_def findFirstPathOfType_def
      find_matchesType_nonempty_paths)

lemma find_first_match:
  "\<forall>g\<in>set before. \<not> P g \<Longrightarrow> P f \<Longrightarrow> find P (before @ f # after) = Some f"
  by (induction before) auto

lemma find_no_match: "\<forall>f\<in>set files. \<not> P f \<Longrightarrow> find P files = None"
  by (induction files) auto

text \<open>
  C5. File paths of a tree are never the empty string. For every such sequence of tree
  entries and every \<open>fileType\<close>, the path the traversal selects is the path of the first
  file entry in depth-first pre-order whose extension (the substring after the last
  \<^verbatim>\<open>.\<close> of its name) equals \<open>fileType\<close>, compared as strings and so case-sensitively: a
  matching file wins over every match after it. The content query is sent for that path
  and \<^verbatim>\<open>fileContent\<close> is the text of its answer. When no file matches, the content query
  is sent for the empty path, and \<^verbatim>\<open>fileContent\<close> is absent, the upstream having no blob
  text at the empty path.
\<close>

theorem first_matching_path_selected:
  assumes "queryFileDetails up repoName = Inr (Some repo)"
    and "repo_object repo = Some (TreeObject (Some es))"
    and "\<forall>f\<in>set (preorderFiles es). path f \<noteq> []"
    and "\<forall>cr. queryContent up repoName [] = Inr (Some cr) \<longrightarrow> contentText cr = None"
    and "fetchSingleRepositoryData up repoName fileType owner = Inr r"
  shows "countRootEntries fileType (repo_object repo) =
           Inr (Some (countFiles es), findFirstPathOfType es fileType)
    \<and> extension entryName = substringAfterLastDot entryName
    \<and> (\<exists>cr. queryContent up repoName (findFirstPathOfType es fileType) = Inr (Some cr)
           \<and> contentOfSpecificFile r = contentText cr)
    \<and> (\<exists>d. toDetails (Some r) = Inr (Some d) \<and> details_fileContent d = contentOfSpecificFile r)
    \<and> (\<forall>before f after.
          preorderFiles es = before @ f # after
          \<and> substringAfterLastDot (name f) = fileType
          \<and> (\<forall>g\<in>set before. substringAfterLastDot (name g) \<noteq> fileType)
          \<longrightarrow> findFirstPathOfType es fileType = path f)
    \<and> ((\<forall>f\<in>set (preorderFiles es). substringAfterLastDot (name f) \<noteq> fileType) \<longrightarrow>
           findFirstPathOfType es fileType = [] \<and> contentOfSpecificFile r = None)"
proof -
  have same: "firstNonEmptyPathOfType es fileType = findFirstPathOfType es fileType"
    using assms(3) by (rule firstNonEmptyPathOfType_nonempty_paths)
  have root: "countRootEntries fileType (repo_object repo) =
      Inr (Some (countFiles es), findFirstPathOfType es fileType)"
    by (simp add: assms(2) countRootEntries_entries same)
  from fetchSingleRepositoryData_resolved [OF assms(5)] assms(1) root
  obtain cr where cr: "queryContent up repoName (findFirstPathOfType es fileType) = Inr (Some cr)"
    "contentOfSpecificFile r = contentText cr" and d: "data r = Some repo"
    by (metis Pair_inject option.inject response.select_convs(1,4) sum.inject(2))
  have details: "\<exists>d. toDetails (Some r) = Inr (Some d) \<and> details_fileContent d = contentOfSpecificFile r"
    using d by (simp add: toDetails_def)
  have first: "findFirstPathOfType es fileType = path f"
    if "preorderFiles es = before @ f # after" "substringAfterLastDot (name f) = fileType"
      "\<forall>g\<in>set before. substringAfterLastDot (name g) \<noteq> fileType" for before f after
    using that find_first_match [of before "\<lambda>f. substringAfterLastDot (name f) = fileType" f after]
    by (simp add: findFirstPathOfType_def)
  have none: "findFirstPathOfType es fileType = [] \<and> contentOfSpecificFile r = None"
    if no: "\<forall>f\<in>set (preorderFiles es). substringAfterLastDot (name f) \<noteq> fileType"
  proof -
    have p: "findFirstPathOfType es fileType = []"
      using find_no_match [of "preorderFiles es" "\<lambda>f. substringAfterLastDot (name f) = fileType"] no
      by (simp add: findFirstPathOfType_def)
    with cr assms(4) show ?thesis by simp
  qed
  from root cr details first none show ?thesis
    by (simp add: extension_substringAfterLastDot)
qed

lemma sample_chain_a:
  "fetchSingleRepositoryData sampleUpstream ''a'' fileType ''bob'' =
    Inr \<lparr>data = Some (sampleRepository ''a'' (Some (TreeObject (Some sampleEntries)))),
         numberOfFiles = Some 4, activeWebhooks = ''https://api.github.com/repos/bob/a/hooks'',
         contentOfSpecificFile =
           (if firstNonEmptyPathOfType sampleEntries fileType = [] then None
            else Some (''content of '' @ firstNonEmptyPathOfType sampleEntries fileType))\<rparr>"
proof -
  have "countFiles sampleEntries = 4" by (simp add: sampleEntries_def)
  then show ?thesis
    by (simp add: fetchSingleRepositoryData_def sampleUpstream_def countRootEntries_entries
        getActiveWebhooks_def contentText_def sampleRepository_def)
qed

lemma sample_paths:
  "firstNonEmptyPathOfType sampleEntries ''yml'' = ''src/ci.yml''"
  "firstNonEmptyPathOfType sampleEntries ''rs'' = []"
  by (simp_all add: firstNonEmptyPathOfType_def selectPath_def matchesType_def sampleEntries_def
      substringAfterLastDot_def)

lemma sample_preorderFiles:
  "preorderFiles sampleEntries =
     [Entry ''README'' ''blob'' ''README'' None] @
     Entry ''ci.yml'' ''blob'' ''src/ci.yml'' None #
     [Entry ''deep.yml'' ''blob'' ''src/lib/deep.yml'' None,
      Entry ''top.yml'' ''blob'' ''top.yml'' None]"
  by (simp add: sampleEntries_def)

theorem first_matching_path_selected_witness:
  "queryFileDetails sampleUpstream ''a'' =
     Inr (Some (sampleRepository ''a'' (Some (TreeObject (Some sampleEntries)))))
   \<and> map path (preorderFiles sampleEntries) =
       [''README'', ''src/ci.yml'', ''src/lib/deep.yml'', ''top.yml'']
   \<and> map (\<lambda>f. substringAfterLastDot (name f)) (preorderFiles sampleEntries) =
       [''README'', ''yml'', ''yml'', ''yml'']
   \<and> queryContent sampleUpstream ''a'' [] = Inr (Some (ContentRepository (Some (BlobObject None))))
   \<and> findFirstPathOfType sampleEntries ''yml'' = ''src/ci.yml''
   \<and> countRootEntries ''yml'' (Some (TreeObject (Some sampleEntries))) = Inr (Some 4, ''src/ci.yml'')
   \<and> (\<exists>r. fetchSingleRepositoryData sampleUpstream ''a'' ''yml'' ''bob'' = Inr r
         \<and> contentOfSpecificFile r = Some ''content of src/ci.yml'')
   \<and> findFirstPathOfType sampleEntries ''rs'' = []
   \<and> (\<exists>r. fetchSingleRepositoryData sampleUpstream ''a'' ''rs'' ''bob'' = Inr r
         \<and> contentOfSpecificFile r = None)"
proof -
  let ?repo = "sampleRepository ''a'' (Some (TreeObject (Some sampleEntries)))"
  let ?yml = "\<lparr>data = Some ?repo, numberOfFiles = Some 4,
      activeWebhooks = ''https://api.github.com/repos/bob/a/hooks'',
      contentOfSpecificFile = Some ''content of src/ci.yml''\<rparr>"
  let ?rs = "\<lparr>data = Some ?repo, numberOfFiles = Some 4,
      activeWebhooks = ''https://api.github.com/repos/bob/a/hooks'',
      contentOfSpecificFile = None\<rparr>"
  have q: "queryFileDetails sampleUpstream ''a'' = Inr (Some ?repo)"
    by (simp add: sampleUpstream_def)
  have ob: "repo_object ?repo = Some (TreeObject (Some sampleEntries))"
    by (simp add: sampleRepository_def)
  have n: "countFiles sampleEntries = 4"
    by (simp add: sampleEntries_def)
  have paths: "\<forall>f\<in>set (preorderFiles sampleEntries). path f \<noteq> []"
    by (simp add: sampleEntries_def)
  have pathlist: "map path (preorderFiles sampleEntries) =
       [''README'', ''src/ci.yml'', ''src/lib/deep.yml'', ''top.yml'']"
    by (simp add: sampleEntries_def)
  have exts: "map (\<lambda>f. substringAfterLastDot (name f)) (preorderFiles sampleEntries) =
       [''README'', ''yml'', ''yml'', ''yml'']"
    by (simp add: sampleEntries_def substringAfterLastDot_def)
  have qc: "queryContent sampleUpstream ''a'' [] = Inr (Some (ContentRepository (Some (BlobObject None))))"
    by (simp add: sampleUpstream_def)
  then have empty: "\<forall>cr. queryContent sampleUpstream ''a'' [] = Inr (Some cr) \<longrightarrow> contentText cr = None"
    by (simp add: contentText_def)
  have cy: "fetchSingleRepositoryData sampleUpstream ''a'' ''yml'' ''bob'' = Inr ?yml"
    and cn: "fetchSingleRepositoryData sampleUpstream ''a'' ''rs'' ''bob'' = Inr ?rs"
    by (simp_all add: sample_chain_a sample_paths)
  note match = first_matching_path_selected [OF q ob paths empty cy]
  note no_match = first_matching_path_selected [OF q ob paths empty cn]
  have "substringAfterLastDot (name (Entry ''ci.yml'' ''blob'' ''src/ci.yml'' None)) = ''yml''"
    "\<forall>g\<in>set [Entry ''README'' ''blob'' ''README'' None]. substringAfterLastDot (name g) \<noteq> ''yml''"
    by (simp_all add: substringAfterLastDot_def)
  with match sample_preorderFiles
  have "findFirstPathOfType sampleEntries ''yml'' = path (Entry ''ci.yml'' ''blob'' ''src/ci.yml'' None)"
    by blast
  then have py: "findFirstPathOfType sampleEntries ''yml'' = ''src/ci.yml''"
    by simp
  from match have "countRootEntries ''yml'' (repo_object ?repo) =
      Inr (Some (countFiles sampleEntries), findFirstPathOfType sampleEntries ''yml'')"
    by (rule conjunct1)
  then have root: "countRootEntries ''yml'' (Some (TreeObject (Some sampleEntries))) =
      Inr (Some 4, ''src/ci.yml'')"
    by (simp add: ob n py)
  have "\<forall>f\<in>set (preorderFiles sampleEntries). substringAfterLastDot (name f) \<noteq> ''rs''"
    by (simp add: sampleEntries_def substringAfterLastDot_def)
  with no_match have "findFirstPathOfType sampleEntries ''rs'' = [] \<and> contentOfSpecificFile ?rs = None"
    by blast
  then have pn: "findFirstPathOfType sampleEntries ''rs'' = []"
    by (rule conjunct1)
  have c1: "\<exists>r. fetchSingleRepositoryData sampleUpstream ''a'' ''yml'' ''bob'' = Inr r
         \<and> contentOfSpecificFile r = Some ''content of src/ci.yml''"
    by (simp add: cy)
  have c2: "\<exists>r. fetchSingleRepositoryData sampleUpstream ''a'' ''rs'' ''bob'' = Inr r
         \<and> contentOfSpecificFile r = None"
    by (simp add: cn)
  from q pathlist exts qc py root c1 pn c2 show ?thesis
    by (intro conjI)
qed

section \<open>Absent fields in the tree response\<close>

text \<open>
  C7, as amended. A null \<^verbatim>\<open>repository\<close> and a root object without \<^verbatim>\<open>entries\<close> make
  the chain fail with a \<open>TypeError\<close>. A null root \<^verbatim>\<open>object\<close> does not: the optional
  chain \<^verbatim>\<open>object?.entries.reduce(...)\<close> yields \<^verbatim>\<open>undefined\<close>, \<^verbatim>\<open>numberOfFiles\<close> is left
  absent, and the chain goes on to fetch the webhooks and the content of the empty path.
\<close>

theorem absent_fields_in_tree_response:
  assumes "queryFileDetails up repoName = Inr found"
  shows "(found = None \<longrightarrow> fetchSingleRepositoryData up repoName fileType owner = Inl TypeError)
    \<and> (\<forall>repo. found = Some repo \<and> repo_object repo = Some (TreeObject None) \<longrightarrow>
          fetchSingleRepositoryData up repoName fileType owner = Inl TypeError)
    \<and> (\<forall>repo. found = Some repo \<and> repo_object repo = None \<longrightarrow>
          fetchSingleRepositoryData up repoName fileType owner =
            (case getActiveWebhooks up owner repoName of
               Inl e \<Rightarrow> Inl e
             | Inr hooks \<Rightarrow>
                 (case queryContent up repoName [] of
                    Inl e \<Rightarrow> Inl e
                  | Inr None \<Rightarrow> Inl TypeError
                  | Inr (Some cr) \<Rightarrow>
                      Inr \<lparr>data = Some repo, numberOfFiles = None, activeWebhooks = hooks,
                           contentOfSpecificFile = contentText cr\<rparr>)))"
  using assms by (simp add: fetchSingleRepositoryData_def countRootEntries_def)

theorem absent_fields_in_tree_response_witness:
  "queryFileDetails sampleUpstream ''ghost'' = Inr None
   \<and> fetchSingleRepositoryData sampleUpstream ''ghost'' ''yml'' ''bob'' = Inl TypeError
   \<and> queryFileDetails sampleUpstream ''odd'' =
       Inr (Some (sampleRepository ''odd'' (Some (TreeObject None))))
   \<and> fetchSingleRepositoryData sampleUpstream ''odd'' ''yml'' ''bob'' = Inl TypeError
   \<and> queryFileDetails sampleUpstream ''main-only'' = Inr (Some (sampleRepository ''main-only'' None))
   \<and> fetchSingleRepositoryData sampleUpstream ''main-only'' ''yml'' ''bob'' =
       Inr \<lparr>data = Some (sampleRepository ''main-only'' None), numberOfFiles = None,
            activeWebhooks = ''https://api.github.com/repos/bob/main-only/hooks'',
            contentOfSpecificFile = None\<rparr>"
proof -
  have g: "queryFileDetails sampleUpstream ''ghost'' = Inr None"
    and od: "queryFileDetails sampleUpstream ''odd'' =
       Inr (Some (sampleRepository ''odd'' (Some (TreeObject None))))"
    and m: "queryFileDetails sampleUpstream ''main-only'' = Inr (Some (sampleRepository ''main-only'' None))"
    by (simp_all add: sampleUpstream_def)
  have rest: "getActiveWebhooks sampleUpstream ''bob'' ''main-only'' =
        Inr ''https://api.github.com/repos/bob/main-only/hooks''"
     "queryContent sampleUpstream ''main-only'' [] = Inr (Some (ContentRepository (Some (BlobObject None))))"
    by (simp_all add: sampleUpstream_def getActiveWebhooks_def)
  from absent_fields_in_tree_response [OF g, of "''yml''" "''bob''"]
    absent_fields_in_tree_response [OF od, of "''yml''" "''bob''"]
    absent_fields_in_tree_response [OF m, of "''yml''" "''bob''"]
    g od m rest
  show ?thesis
    by (simp add: sampleRepository_def contentText_def)
qed

text \<open>A repository whose root object is null: the chain resolves, with no file count.\<close>

theorem null_root_object_counterexample:
  "repo_object (sampleRepository ''main-only'' None) = None
   \<and> queryFileDetails sampleUpstream ''main-only'' = Inr (Some (sampleRepository ''main-only'' None))
   \<and> fetchSingleRepositoryData sampleUpstream ''main-only'' ''yml'' ''bob'' =
       Inr \<lparr>data = Some (sampleRepository ''main-only'' None), numberOfFiles = None,
            activeWebhooks = ''https://api.github.com/repos/bob/main-only/hooks'',
            contentOfSpecificFile = None\<rparr>"
  by (simp add: fetchSingleRepositoryData_def sampleUpstream_def countRootEntries_def
      getActiveWebhooks_def contentText_def sampleRepository_def)


section \<open>The batch\<close>

subsection \<open>The loop over pairs\<close>

lemma arrayGet_Some: "arrayGet xs i = Some x \<Longrightarrow> i < length xs \<and> xs ! i = x"
  by (auto simp: arrayGet_def split: if_splits)

lemma promiseAll2_Inl:
  "promiseAll2 w a b = Inl e \<Longrightarrow> a = Some (Inl e) \<or> b = Some (Inl e)"
  by (auto simp: promiseAll2_def rejection_def split: option.splits sum.splits if_splits)

lemma promiseAll2_Inr:
  "promiseAll2 w a b = Inr pair \<Longrightarrow> rejection a = None \<and> rejection b = None"
  by (auto simp: promiseAll2_def split: option.splits)

lemma loop_all_fulfilled:
  "\<exists>pairs. runMultiplePromiseAllInLoop_from rf (map Inr rs) i results = Inr (results @ pairs)
      \<and> concat pairs = map Some (drop i rs) @ (if odd (length rs - i) then [None] else [])
      \<and> (\<forall>pair\<in>set pairs. length pair = 2)"
proof (induction rf "map Inr rs :: (error + 'a) list" i results
    rule: runMultiplePromiseAllInLoop_from.induct)
  case (1 rf i results)
  show ?case
  proof (cases "i < length rs")
    case False
    then show ?thesis by simp
  next
    case True
    let ?pair = "[Some (rs ! i), if i + 1 < length rs then Some (rs ! (i + 1)) else None]"
    have pa: "promiseAll2 (rf i) (arrayGet (map Inr rs) i) (arrayGet (map Inr rs) (i + 1)) = Inr ?pair"
      using True by (simp add: arrayGet_def promiseAll2_def rejection_def fulfilled_def)
    from "1.hyps" [OF _ pa] True obtain pairs where
      ih: "runMultiplePromiseAllInLoop_from rf (map Inr rs) (i + 2) (results @ [?pair]) =
             Inr ((results @ [?pair]) @ pairs)"
      and cc: "concat pairs =
             map Some (drop (i + 2) rs) @ (if odd (length rs - (i + 2)) then [None] else [])"
      and two: "\<forall>pair\<in>set pairs. length pair = 2"
      by auto
    have step: "runMultiplePromiseAllInLoop_from rf (map Inr rs) i results =
        Inr (results @ (?pair # pairs))"
      using True pa ih by (subst runMultiplePromiseAllInLoop_from.simps) simp
    have "concat (?pair # pairs) =
        map Some (drop i rs) @ (if odd (length rs - i) then [None] else [])"
    proof (cases "i + 1 < length rs")
      case True
      then have "drop i rs = rs ! i # rs ! (i + 1) # drop (i + 2) rs"
        by (metis Cons_nth_drop_Suc Suc_eq_plus1 add_2_eq_Suc' Suc_lessD)
      moreover have "odd (length rs - i) = odd (length rs - (i + 2))"
        using True by auto
      ultimately show ?thesis using True cc by simp
    next
      case False
      with \<open>i < length rs\<close> have l: "length rs = i + 1" by simp
      then have "drop i rs = [rs ! i]"
        by (metis Cons_nth_drop_Suc Suc_eq_plus1 drop_all le_refl lessI)
      then show ?thesis using l cc by simp
    qed
    moreover have "\<forall>pair\<in>set (?pair # pairs). length pair = 2"
      using two by simp
    ultimately show ?thesis using step by blast
  qed
qed

lemma loop_rejected:
  "i \<le> j \<Longrightarrow> j < length promises \<Longrightarrow> promises ! j = Inl e \<Longrightarrow>
   \<exists>e'. runMultiplePromiseAllInLoop_from rf promises i results = Inl e'
       \<and> (\<exists>k<length promises. promises ! k = Inl e')"
proof (induction rf promises i results rule: runMultiplePromiseAllInLoop_from.induct)
  case (1 rf promises i results)
  then have il: "i < length promises" by simp
  show ?case
  proof (cases "promiseAll2 (rf i) (arrayGet promises i) (arrayGet promises (i + 1))")
    case (Inl e')
    then have "\<exists>k<length promises. promises ! k = Inl e'"
      using promiseAll2_Inl [OF Inl] by (auto dest: arrayGet_Some)
    moreover have "runMultiplePromiseAllInLoop_from rf promises i results = Inl e'"
      using il Inl by (subst runMultiplePromiseAllInLoop_from.simps) simp
    ultimately show ?thesis by blast
  next
    case (Inr pair)
    from promiseAll2_Inr [OF Inr] have nr: "rejection (arrayGet promises i) = None"
      "rejection (arrayGet promises (i + 1)) = None" by simp_all
    have "j \<noteq> i" using nr(1) il "1.prems" by (auto simp: arrayGet_def rejection_def)
    moreover have "j \<noteq> i + 1" using nr(2) "1.prems" by (auto simp: arrayGet_def rejection_def)
    ultimately have "i + 2 \<le> j" using "1.prems" by simp
    from "1.IH" [OF il Inr this "1.prems"(2,3)]
    show ?thesis using il Inr by (subst runMultiplePromiseAllInLoop_from.simps) simp
  qed
qed

subsection \<open>The final map\<close>

lemma toDetails_resolved:
  "data r = Some repo \<Longrightarrow>
   toDetails (Some r) =
     Inr (Some \<lparr>details_name = repo_name repo, details_visibility = repo_visibility repo,
                details_size = repo_diskUsage repo, details_owner = repo_owner_login repo,
                details_numberOfFiles = numberOfFiles r,
                details_fileContent = contentOfSpecificFile r,
                details_activeWebhooks = activeWebhooks r\<rparr>)"
  by (simp add: toDetails_def)

lemma toDetails_activeWebhooks:
  "toDetails (Some r) = Inr (Some d) \<Longrightarrow> details_activeWebhooks d = activeWebhooks r"
  by (auto simp: toDetails_def split: option.splits)

lemma mapThrowing_toDetails:
  "\<forall>r\<in>set rs. data r \<noteq> None \<Longrightarrow>
   \<exists>ds. mapThrowing toDetails (map Some rs) = Inr (map Some ds) \<and> length ds = length rs
      \<and> (\<forall>i<length rs. toDetails (Some (rs ! i)) = Inr (Some (ds ! i)))"
proof (induction rs)
  case Nil
  show ?case by simp
next
  case (Cons r rs)
  then obtain ds where ds: "mapThrowing toDetails (map Some rs) = Inr (map Some ds)"
    "length ds = length rs" "\<forall>i<length rs. toDetails (Some (rs ! i)) = Inr (Some (ds ! i))"
    by auto
  from Cons.prems obtain repo where "data r = Some repo" by auto
  from toDetails_resolved [OF this] obtain d where d: "toDetails (Some r) = Inr (Some d)"
    by blast
  have "mapThrowing toDetails (map Some (r # rs)) = Inr (map Some (d # ds))"
    using d ds(1) by simp
  moreover have "\<forall>i<length (r # rs). toDetails (Some ((r # rs) ! i)) = Inr (Some ((d # ds) ! i))"
    using d ds(3) by (auto simp: nth_Cons split: nat.splits)
  ultimately show ?case using ds(2)
    by (intro exI [of _ "d # ds"]) simp
qed

lemma all_resolved_list:
  "\<forall>j<length ps. \<exists>r. ps ! j = Inr r \<Longrightarrow> \<exists>rs. ps = map Inr rs"
proof (induction ps)
  case Nil
  show ?case by simp
next
  case (Cons p ps)
  from Cons.prems have "\<exists>r. p = Inr r" by (metis length_Cons nth_Cons_0 zero_less_Suc)
  then obtain r where r: "p = Inr r" ..
  from Cons.prems have "\<forall>j<length ps. \<exists>r. ps ! j = Inr r"
    by (metis Suc_less_eq length_Cons nth_Cons_Suc)
  from Cons.IH [OF this] obtain rs where "ps = map Inr rs" ..
  with r have "p # ps = map Inr (r # rs)" by simp
  then show ?case by (rule exI)
qed

subsection \<open>The resolver\<close>

lemma batch_all_resolved:
  assumes "map (\<lambda>repoName. fetchSingleRepositoryData up repoName fileType owner) repoNames = map Inr rs"
  shows "\<exists>results. runMultiplePromiseAllInLoop rejectsFirst (map Inr rs) = Inr results
      \<and> concat results = map Some rs @ (if odd (length rs) then [None] else [])
      \<and> (\<forall>pair\<in>set results. length pair = 2)
      \<and> fetchRepositoriesDetails rejectsFirst up repoNames fileType owner =
          mapThrowing toDetails (map Some rs)"
proof -
  from loop_all_fulfilled [of rejectsFirst rs 0 "[]"] obtain pairs where
    run: "runMultiplePromiseAllInLoop_from rejectsFirst (map Inr rs) 0 [] = Inr pairs"
    and cc: "concat pairs = map Some rs @ (if odd (length rs) then [None] else [])"
    and two: "\<forall>pair\<in>set pairs. length pair = 2"
    by auto
  have "filter (\<lambda>d. d \<noteq> None) (concat pairs) = map Some rs"
    by (simp add: cc filter_map o_def)
  then have "fetchRepositoriesDetails rejectsFirst up repoNames fileType owner =
      mapThrowing toDetails (map Some rs)"
    using run by (simp add: fetchRepositoriesDetails_def runMultiplePromiseAllInLoop_def assms)
  with run cc two show ?thesis
    by (simp add: runMultiplePromiseAllInLoop_def)
qed

lemma batch_rejected:
  assumes "i < length repoNames"
    and "fetchSingleRepositoryData up (repoNames ! i) fileType owner = Inl e"
  shows "\<exists>e'. fetchRepositoriesDetails rejectsFirst up repoNames fileType owner = Inl e'
      \<and> (\<exists>k<length repoNames. fetchSingleRepositoryData up (repoNames ! k) fileType owner = Inl e')"
proof -
  let ?promises = "map (\<lambda>repoName. fetchSingleRepositoryData up repoName fileType owner) repoNames"
  have "?promises ! i = Inl e" "i < length ?promises"
    using assms by simp_all
  from loop_rejected [OF le0 this(2,1), of rejectsFirst "[]"] obtain e' k where
    run: "runMultiplePromiseAllInLoop_from rejectsFirst ?promises 0 [] = Inl e'"
    and k: "k < length ?promises" "?promises ! k = Inl e'"
    by blast
  from run have "fetchRepositoriesDetails rejectsFirst up repoNames fileType owner = Inl e'"
    by (simp add: fetchRepositoriesDetails_def runMultiplePromiseAllInLoop_def)
  moreover from k have "k < length repoNames"
    "fetchSingleRepositoryData up (repoNames ! k) fileType owner = Inl e'"
    by simp_all
  ultimately show ?thesis by blast
qed

lemma batch_resolved_chains:
  assumes "fetchRepositoriesDetails rejectsFirst up repoNames fileType owner = Inr ds"
  shows "\<exists>rs. map (\<lambda>repoName. fetchSingleRepositoryData up repoName fileType owner) repoNames = map Inr rs"
proof (rule all_resolved_list, intro allI impI)
  fix j
  assume "j < length (map (\<lambda>repoName. fetchSingleRepositoryData up repoName fileType owner) repoNames)"
  then have j: "j < length repoNames" by simp
  show "\<exists>r. map (\<lambda>repoName. fetchSingleRepositoryData up repoName fileType owner) repoNames ! j = Inr r"
  proof (cases "fetchSingleRepositoryData up (repoNames ! j) fileType owner")
    case (Inl e)
    from batch_rejected [OF j Inl, of rejectsFirst] assms show ?thesis by auto
  next
    case (Inr r)
    with j show ?thesis by simp
  qed
qed

lemma resolved_chain_data:
  "fetchSingleRepositoryData up repoName fileType owner = Inr r \<Longrightarrow> data r \<noteq> None"
  by (auto simp: fetchSingleRepositoryData_def split: sum.splits option.splits prod.splits)

lemma resolved_chains_data:
  assumes "map (\<lambda>repoName. fetchSingleRepositoryData up repoName fileType owner) repoNames = map Inr rs"
  shows "length rs = length repoNames"
    and "\<forall>i<length repoNames. fetchSingleRepositoryData up (repoNames ! i) fileType owner = Inr (rs ! i)"
    and "\<forall>r\<in>set rs. data r \<noteq> None"
proof -
  show l: "length rs = length repoNames"
    using assms by (metis length_map)
  show nth: "\<forall>i<length repoNames. fetchSingleRepositoryData up (repoNames ! i) fileType owner = Inr (rs ! i)"
  proof (intro allI impI)
    fix i assume i: "i < length repoNames"
    then have "fetchSingleRepositoryData up (repoNames ! i) fileType owner =
        map (\<lambda>repoName. fetchSingleRepositoryData up repoName fileType owner) repoNames ! i"
      by simp
    also have "\<dots> = map Inr rs ! i"
      by (simp only: assms)
    also have "\<dots> = Inr (rs ! i)"
      using i l by simp
    finally show "fetchSingleRepositoryData up (repoNames ! i) fileType owner = Inr (rs ! i)" .
  qed
  show "\<forall>r\<in>set rs. data r \<noteq> None"
  proof
    fix r assume "r \<in> set rs"
    then obtain i where "i < length rs" "rs ! i = r" by (auto simp: in_set_conv_nth)
    with nth l show "data r \<noteq> None" by (metis resolved_chain_data)
  qed
qed

subsection \<open>The sample upstream\<close>

lemma sample_chain:
  assumes "repoName \<notin> {''b'', ''ghost'', ''main-only'', ''odd''}"
  shows "fetchSingleRepositoryData sampleUpstream repoName ''yml'' owner =
    Inr (sampleResponse repoName owner (Some ''content of src/ci.yml''))"
proof -
  have "countFiles sampleEntries = 4" by (simp add: sampleEntries_def)
  then show ?thesis
    using assms
    by (simp add: fetchSingleRepositoryData_def sampleUpstream_def countRootEntries_entries
        getActiveWebhooks_def contentText_def sampleResponse_def sampleRepository_def sample_paths)
qed

lemma sample_chain_b:
  "fetchSingleRepositoryData sampleUpstream ''b'' fileType owner =
     Inl (UpstreamError ''tree fetch failed'')"
  by (simp add: fetchSingleRepositoryData_def sampleUpstream_def)

lemma sample_toDetails:
  "toDetails (Some (sampleResponse repoName owner content)) =
     Inr (Some (sampleDetails repoName owner content))"
  by (simp add: toDetails_def sampleResponse_def sampleDetails_def sampleRepository_def)

lemma list_of_length_3: "length xs = 3 \<Longrightarrow> xs = [xs ! 0, xs ! 1, xs ! 2]"
  by (cases xs; cases "tl xs"; cases "tl (tl xs)") (auto simp: numeral_3_eq_3)

section \<open>Webhooks of the assembled records\<close>

text \<open>
  C1. Whenever \<^verbatim>\<open>fetchRepositoriesDetails\<close> returns records, there is one record per
  requested name, in the order of the names, and the \<^verbatim>\<open>activeWebhooks\<close> of the record
  for a name is exactly what the webhooks fetch answers for the \<open>owner\<close> argument of the
  call and that name, that is for the URL built from these two strings. The owner login of
  the tree response plays no part in it.
\<close>

theorem webhooks_fetched_with_supplied_owner:
  assumes "fetchRepositoriesDetails rejectsFirst up repoNames fileType owner = Inr ds"
  shows "length ds = length repoNames
    \<and> (\<forall>i<length repoNames. \<exists>d. ds ! i = Some d
          \<and> getActiveWebhooks up owner (repoNames ! i) = Inr (details_activeWebhooks d)
          \<and> fetchJson up (''https://api.github.com/repos/'' @ owner @ ''/'' @ repoNames ! i @ ''/hooks'')
              = Inr (details_activeWebhooks d))"
proof -
  from batch_resolved_chains [OF assms] obtain rs where
    rs: "map (\<lambda>repoName. fetchSingleRepositoryData up repoName fileType owner) repoNames = map Inr rs"
    by blast
  note chains = resolved_chains_data [OF rs]
  from batch_all_resolved [OF rs, of rejectsFirst] assms
  have m: "mapThrowing toDetails (map Some rs) = Inr ds" by auto
  from mapThrowing_toDetails [OF chains(3)] m obtain ds' where
    ds': "ds = map Some ds'" "length ds' = length rs"
    "\<forall>i<length rs. toDetails (Some (rs ! i)) = Inr (Some (ds' ! i))"
    by auto
  have "\<exists>d. ds ! i = Some d
          \<and> getActiveWebhooks up owner (repoNames ! i) = Inr (details_activeWebhooks d)
          \<and> fetchJson up (''https://api.github.com/repos/'' @ owner @ ''/'' @ repoNames ! i @ ''/hooks'')
              = Inr (details_activeWebhooks d)"
    if i: "i < length repoNames" for i
  proof -
    from i chains(2) have c: "fetchSingleRepositoryData up (repoNames ! i) fileType owner = Inr (rs ! i)"
      by simp
    from fetchSingleRepositoryData_resolved [OF c]
    have h: "getActiveWebhooks up owner (repoNames ! i) = Inr (activeWebhooks (rs ! i))"
      by blast
    from i chains(1) ds'(3) have "toDetails (Some (rs ! i)) = Inr (Some (ds' ! i))"
      by simp
    from toDetails_activeWebhooks [OF this] h
    have "getActiveWebhooks up owner (repoNames ! i) = Inr (details_activeWebhooks (ds' ! i))"
      by simp
    moreover have "ds ! i = Some (ds' ! i)"
      using i chains(1) ds'(1,2) by simp
    ultimately show ?thesis
      by (simp add: getActiveWebhooks_def)
  qed
  moreover have "length ds = length repoNames"
    using ds'(1,2) chains(1) by simp
  ultimately show ?thesis by blast
qed

theorem webhooks_fetched_with_supplied_owner_witness:
  "fetchRepositoriesDetails (\<lambda>i. True) sampleUpstream [''a'', ''c''] ''yml'' ''bob'' =
     Inr [Some (sampleDetails ''a'' ''bob'' (Some ''content of src/ci.yml'')),
          Some (sampleDetails ''c'' ''bob'' (Some ''content of src/ci.yml''))]
   \<and> details_owner (sampleDetails ''a'' ''bob'' (Some ''content of src/ci.yml'')) = ''alice''
   \<and> details_activeWebhooks (sampleDetails ''a'' ''bob'' (Some ''content of src/ci.yml'')) =
       ''https://api.github.com/repos/bob/a/hooks''
   \<and> getActiveWebhooks sampleUpstream ''bob'' ''a'' = Inr ''https://api.github.com/repos/bob/a/hooks''
   \<and> getActiveWebhooks sampleUpstream ''bob'' ''c'' = Inr ''https://api.github.com/repos/bob/c/hooks''
   \<and> getActiveWebhooks sampleUpstream ''alice'' ''a'' = Inr ''https://api.github.com/repos/alice/a/hooks''"
proof -
  let ?rs = "[sampleResponse ''a'' ''bob'' (Some ''content of src/ci.yml''),
              sampleResponse ''c'' ''bob'' (Some ''content of src/ci.yml'')]"
  let ?ds = "[Some (sampleDetails ''a'' ''bob'' (Some ''content of src/ci.yml'')),
              Some (sampleDetails ''c'' ''bob'' (Some ''content of src/ci.yml''))]"
  have "map (\<lambda>repoName. fetchSingleRepositoryData sampleUpstream repoName ''yml'' ''bob'') [''a'', ''c'']
      = map Inr ?rs"
    by (simp add: sample_chain)
  from batch_all_resolved [OF this, of "\<lambda>i. True"]
  have "fetchRepositoriesDetails (\<lambda>i. True) sampleUpstream [''a'', ''c''] ''yml'' ''bob'' =
      mapThrowing toDetails (map Some ?rs)"
    by blast
  then have ev: "fetchRepositoriesDetails (\<lambda>i. True) sampleUpstream [''a'', ''c''] ''yml'' ''bob'' = Inr ?ds"
    by (simp add: sample_toDetails)
  note hooks = webhooks_fetched_with_supplied_owner [OF ev]
  from hooks have "\<exists>d. ?ds ! 0 = Some d
      \<and> getActiveWebhooks sampleUpstream ''bob'' ([''a'', ''c''] ! 0) = Inr (details_activeWebhooks d)"
    by auto
  then have a: "getActiveWebhooks sampleUpstream ''bob'' ''a'' = Inr ''https://api.github.com/repos/bob/a/hooks''"
    by (simp add: sampleDetails_def)
  from hooks have "\<exists>d. ?ds ! 1 = Some d
      \<and> getActiveWebhooks sampleUpstream ''bob'' ([''a'', ''c''] ! 1) = Inr (details_activeWebhooks d)"
    by auto
  then have c: "getActiveWebhooks sampleUpstream ''bob'' ''c'' = Inr ''https://api.github.com/repos/bob/c/hooks''"
    by (simp add: sampleDetails_def)
  have "getActiveWebhooks sampleUpstream ''alice'' ''a'' = Inr ''https://api.github.com/repos/alice/a/hooks''"
    by (simp add: getActiveWebhooks_def sampleUpstream_def)
  with ev a c show ?thesis
    by (simp add: sampleDetails_def)
qed

subsection \<open>The loop with times\<close>

lemma timed_loop_agrees:
  "runMultiplePromiseAllInLoop_timed settledAt promises i now results = Settled x \<Longrightarrow>
   runMultiplePromiseAllInLoop_from (\<lambda>i. settledAt i < settledAt (i + 1)) promises i results = x"
proof (induction settledAt promises i now results rule: runMultiplePromiseAllInLoop_timed.induct)
  case (1 settledAt promises i now results)
  show ?case
  proof (cases "i < length promises")
    case False
    with "1.prems" show ?thesis by simp
  next
    case True
    with "1.prems" have nu:
      "\<not> unhandledBefore settledAt promises i (awaitedUntil settledAt promises i now)"
      by (auto split: if_splits)
    show ?thesis
    proof (cases "promiseAll2 (settledAt i < settledAt (i + 1))
        (arrayGet promises i) (arrayGet promises (i + 1))")
      case (Inl e)
      with True nu "1.prems" show ?thesis
        by (subst runMultiplePromiseAllInLoop_from.simps) auto
    next
      case (Inr pair)
      with True nu "1.prems" have
        "runMultiplePromiseAllInLoop_timed settledAt promises (i + 2)
           (awaitedUntil settledAt promises i now) (results @ [pair]) = Settled x"
        by simp
      from "1.IH" [OF True nu Inr this] True Inr show ?thesis
        by (subst runMultiplePromiseAllInLoop_from.simps) simp
    qed
  qed
qed

lemma timed_batch_agrees:
  assumes "fetchRepositoriesDetails_timed settledAt up repoNames fileType owner = Settled x"
  shows "fetchRepositoriesDetails (\<lambda>i. settledAt i < settledAt (i + 1)) up repoNames fileType owner = x"
proof -
  let ?promises = "map (\<lambda>repoName. fetchSingleRepositoryData up repoName fileType owner) repoNames"
  show ?thesis
  proof (cases "runMultiplePromiseAllInLoop_timed settledAt ?promises 0 0 []")
    case ProcessExit
    with assms show ?thesis
      by (simp add: fetchRepositoriesDetails_timed_def del: runMultiplePromiseAllInLoop_timed.simps)
  next
    case (Settled y)
    from timed_loop_agrees [OF Settled]
    have u: "runMultiplePromiseAllInLoop_from (\<lambda>i. settledAt i < settledAt (i + 1)) ?promises 0 [] = y" .
    from assms Settled
    have "x = (case y of Inl e \<Rightarrow> Inl e
        | Inr results \<Rightarrow> mapThrowing toDetails (filter (\<lambda>d. d \<noteq> None) (concat results)))"
      by (cases y)
        (simp_all add: fetchRepositoriesDetails_timed_def del: runMultiplePromiseAllInLoop_timed.simps)
    with u show ?thesis
      by (simp add: fetchRepositoriesDetails_def runMultiplePromiseAllInLoop_def
          del: runMultiplePromiseAllInLoop_from.simps)
  qed
qed

lemma timed_batch_rejected:
  assumes "i < length repoNames"
    and "fetchSingleRepositoryData up (repoNames ! i) fileType owner = Inl e"
  shows "fetchRepositoriesDetails_timed settledAt up repoNames fileType owner = ProcessExit
    \<or> (\<exists>e'. fetchRepositoriesDetails_timed settledAt up repoNames fileType owner = Settled (Inl e')
          \<and> (\<exists>k<length repoNames. fetchSingleRepositoryData up (repoNames ! k) fileType owner = Inl e'))"
proof (cases "fetchRepositoriesDetails_timed settledAt up repoNames fileType owner")
  case ProcessExit
  then show ?thesis by simp
next
  case (Settled x)
  from batch_rejected [OF assms, of "\<lambda>i. settledAt i < settledAt (i + 1)"]
    timed_batch_agrees [OF Settled] Settled
  show ?thesis by auto
qed

lemma timed_first_pair_rejected:
  assumes "i < 2" and "i < length repoNames"
    and "fetchSingleRepositoryData up (repoNames ! i) fileType owner = Inl e"
    and "\<forall>k<length repoNames. 2 \<le> k \<longrightarrow>
           (\<exists>r. fetchSingleRepositoryData up (repoNames ! k) fileType owner = Inr r)"
  shows "\<exists>e'. fetchRepositoriesDetails_timed settledAt up repoNames fileType owner = Settled (Inl e')
          \<and> (\<exists>k<length repoNames. fetchSingleRepositoryData up (repoNames ! k) fileType owner = Inl e')"
proof -
  let ?promises = "map (\<lambda>repoName. fetchSingleRepositoryData up repoName fileType owner) repoNames"
  have "\<not> unhandledBefore settledAt ?promises 0 until" for until
    using assms(4)
    by (auto simp: unhandledBefore_def list_ex_iff arrayGet_def rejection_def)
  moreover have rej: "rejection (arrayGet ?promises i) = Some e"
    using assms(2,3) by (simp add: arrayGet_def rejection_def)
  have "i = 0 \<or> i = 1" using assms(1) by auto
  with rej have
    "\<exists>e'. promiseAll2 w (arrayGet ?promises 0) (arrayGet ?promises (0 + 1)) = Inl e'" for w
    by (auto simp: promiseAll2_def split: option.splits)
  then obtain e' where
    "promiseAll2 (settledAt 0 < settledAt (0 + 1)) (arrayGet ?promises 0) (arrayGet ?promises (0 + 1)) = Inl e'"
    by blast
  ultimately have "runMultiplePromiseAllInLoop_timed settledAt ?promises 0 0 [] = Settled (Inl e')"
    using assms(2) by (subst runMultiplePromiseAllInLoop_timed.simps) auto
  then have t: "fetchRepositoriesDetails_timed settledAt up repoNames fileType owner = Settled (Inl e')"
    by (simp add: fetchRepositoriesDetails_timed_def del: runMultiplePromiseAllInLoop_timed.simps)
  with timed_batch_rejected [OF assms(2,3), of settledAt] show ?thesis
    by auto
qed

section \<open>A rejected chain\<close>

text \<open>
  C2. A rejected chain should make the whole call fail with the error of that chain.
  The code does so for a chain of the pair the loop is awaiting, and it never returns a
  partial list; but a chain of a later pair that rejects while the loop still awaits an
  earlier pair has no handler, and the process ends instead. With the names \<^verbatim>\<open>a\<close>, \<^verbatim>\<open>c\<close>,
  \<^verbatim>\<open>b\<close>, the tree fetch of \<^verbatim>\<open>b\<close> failing: when \<^verbatim>\<open>b\<close> fails at time 1 and the other two
  chains resolve at times 5 and 6, the process exits; when \<^verbatim>\<open>b\<close> fails at time 7, after
  the first pair, the call fails with the error of \<^verbatim>\<open>b\<close>.
\<close>

theorem unawaited_rejection_exits_process:
  "fetchSingleRepositoryData sampleUpstream ''b'' ''yml'' ''bob'' =
     Inl (UpstreamError ''tree fetch failed'')
   \<and> fetchRepositoriesDetails_timed (\<lambda>j. if j = 0 then 5 else if j = 1 then 6 else 1)
       sampleUpstream [''a'', ''c'', ''b''] ''yml'' ''bob'' = ProcessExit
   \<and> fetchRepositoriesDetails_timed (\<lambda>j. if j = 0 then 5 else if j = 1 then 6 else 7)
       sampleUpstream [''a'', ''c'', ''b''] ''yml'' ''bob'' =
       Settled (Inl (UpstreamError ''tree fetch failed''))"
proof -
  have early: "runMultiplePromiseAllInLoop_timed (\<lambda>j. if j = 0 then 5 else if j = 1 then 6 else 1)
      [Inr a, Inr c, Inl e] 0 0 [] = ProcessExit" for a c :: 'a and e
    by (simp add: unhandledBefore_def awaitedUntil_def arrayGet_def rejection_def)
  have late: "runMultiplePromiseAllInLoop_timed (\<lambda>j. if j = 0 then 5 else if j = 1 then 6 else 7)
      [Inr a, Inr c, Inl e] 0 0 [] = Settled (Inl e)" for a c :: 'a and e
    by (simp add: unhandledBefore_def awaitedUntil_def arrayGet_def rejection_def
        promiseAll2_def fulfilled_def)
  have "fetchRepositoriesDetails_timed (\<lambda>j. if j = 0 then 5 else if j = 1 then 6 else 1)
       sampleUpstream [''a'', ''c'', ''b''] ''yml'' ''bob'' = ProcessExit"
    by (simp add: fetchRepositoriesDetails_timed_def sample_chain sample_chain_b early
        del: runMultiplePromiseAllInLoop_timed.simps)
  moreover have "fetchRepositoriesDetails_timed (\<lambda>j. if j = 0 then 5 else if j = 1 then 6 else 7)
       sampleUpstream [''a'', ''c'', ''b''] ''yml'' ''bob'' =
       Settled (Inl (UpstreamError ''tree fetch failed''))"
    by (simp add: fetchRepositoriesDetails_timed_def sample_chain sample_chain_b late
        del: runMultiplePromiseAllInLoop_timed.simps)
  ultimately show ?thesis
    by (simp add: sample_chain_b)
qed

section \<open>Order of the records\<close>

text \<open>
  C3. When every chain resolves, the loop consumes the promises in pairs of two slots;
  the flattened pairs are the responses in the order of the names, followed by one
  \<^verbatim>\<open>undefined\<close> exactly when the number of names is odd. The call does not fail on that
  slot: it returns one record per name, the record at each position built from the
  response of the name at that position, and no entry stands for the \<^verbatim>\<open>undefined\<close> slot.
\<close>

theorem records_keep_input_order:
  assumes "map (\<lambda>repoName. fetchSingleRepositoryData up repoName fileType owner) repoNames = map Inr rs"
  shows "\<exists>results ds.
      runMultiplePromiseAllInLoop rejectsFirst (map Inr rs) = Inr results
    \<and> (\<forall>pair\<in>set results. length pair = 2)
    \<and> concat results = map Some rs @ (if odd (length repoNames) then [None] else [])
    \<and> fetchRepositoriesDetails rejectsFirst up repoNames fileType owner = Inr (map Some ds)
    \<and> length ds = length repoNames
    \<and> (\<forall>i<length repoNames.
          fetchSingleRepositoryData up (repoNames ! i) fileType owner = Inr (rs ! i)
        \<and> toDetails (Some (rs ! i)) = Inr (Some (ds ! i)))"
proof -
  note chains = resolved_chains_data [OF assms]
  from batch_all_resolved [OF assms, of rejectsFirst] obtain results where
    r: "runMultiplePromiseAllInLoop rejectsFirst (map Inr rs) = Inr results"
    "concat results = map Some rs @ (if odd (length rs) then [None] else [])"
    "\<forall>pair\<in>set results. length pair = 2"
    "fetchRepositoriesDetails rejectsFirst up repoNames fileType owner =
       mapThrowing toDetails (map Some rs)"
    by blast
  from mapThrowing_toDetails [OF chains(3)] obtain ds where
    ds: "mapThrowing toDetails (map Some rs) = Inr (map Some ds)" "length ds = length rs"
    "\<forall>i<length rs. toDetails (Some (rs ! i)) = Inr (Some (ds ! i))"
    by blast
  show ?thesis
    using r ds chains(1,2)
    by (intro exI [of _ results] exI [of _ ds]) simp
qed

theorem records_keep_input_order_witness:
  "map (\<lambda>repoName. fetchSingleRepositoryData sampleUpstream repoName ''yml'' ''bob'') [''a'', ''c'', ''d''] =
     map Inr [sampleResponse ''a'' ''bob'' (Some ''content of src/ci.yml''),
              sampleResponse ''c'' ''bob'' (Some ''content of src/ci.yml''),
              sampleResponse ''d'' ''bob'' (Some ''content of src/ci.yml'')]
   \<and> runMultiplePromiseAllInLoop (\<lambda>i. True)
       (map Inr [sampleResponse ''a'' ''bob'' (Some ''content of src/ci.yml''),
                 sampleResponse ''c'' ''bob'' (Some ''content of src/ci.yml''),
                 sampleResponse ''d'' ''bob'' (Some ''content of src/ci.yml'')]) =
     Inr [[Some (sampleResponse ''a'' ''bob'' (Some ''content of src/ci.yml'')),
           Some (sampleResponse ''c'' ''bob'' (Some ''content of src/ci.yml''))],
          [Some (sampleResponse ''d'' ''bob'' (Some ''content of src/ci.yml'')), None]]
   \<and> fetchRepositoriesDetails (\<lambda>i. True) sampleUpstream [''a'', ''c'', ''d''] ''yml'' ''bob'' =
     Inr [Some (sampleDetails ''a'' ''bob'' (Some ''content of src/ci.yml'')),
          Some (sampleDetails ''c'' ''bob'' (Some ''content of src/ci.yml'')),
          Some (sampleDetails ''d'' ''bob'' (Some ''content of src/ci.yml''))]"
proof -
  let ?names = "[''a'', ''c'', ''d'']"
  let ?rs = "[sampleResponse ''a'' ''bob'' (Some ''content of src/ci.yml''),
              sampleResponse ''c'' ''bob'' (Some ''content of src/ci.yml''),
              sampleResponse ''d'' ''bob'' (Some ''content of src/ci.yml'')]"
  have chains: "map (\<lambda>repoName. fetchSingleRepositoryData sampleUpstream repoName ''yml'' ''bob'') ?names
      = map Inr ?rs"
    by (simp add: sample_chain)
  from records_keep_input_order [OF chains, of "\<lambda>i. True"] obtain ds where
    res: "fetchRepositoriesDetails (\<lambda>i. True) sampleUpstream ?names ''yml'' ''bob'' = Inr (map Some ds)"
    and len: "length ds = length ?names"
    and each: "\<forall>i<length ?names. toDetails (Some (?rs ! i)) = Inr (Some (ds ! i))"
    by blast
  note at = each [rule_format]
  from at [of 0] at [of 1] at [of 2]
  have "toDetails (Some (?rs ! 0)) = Inr (Some (ds ! 0))"
    "toDetails (Some (?rs ! 1)) = Inr (Some (ds ! 1))"
    "toDetails (Some (?rs ! 2)) = Inr (Some (ds ! 2))"
    by simp_all
  then have "ds ! 0 = sampleDetails ''a'' ''bob'' (Some ''content of src/ci.yml'')"
    "ds ! 1 = sampleDetails ''c'' ''bob'' (Some ''content of src/ci.yml'')"
    "ds ! 2 = sampleDetails ''d'' ''bob'' (Some ''content of src/ci.yml'')"
    by (simp_all add: sample_toDetails)
  moreover from len have "ds = [ds ! 0, ds ! 1, ds ! 2]"
    by (intro list_of_length_3) simp
  ultimately have "ds = [sampleDetails ''a'' ''bob'' (Some ''content of src/ci.yml''),
      sampleDetails ''c'' ''bob'' (Some ''content of src/ci.yml''),
      sampleDetails ''d'' ''bob'' (Some ''content of src/ci.yml'')]"
    by simp
  with res have batch: "fetchRepositoriesDetails (\<lambda>i. True) sampleUpstream ?names ''yml'' ''bob'' =
     Inr [Some (sampleDetails ''a'' ''bob'' (Some ''content of src/ci.yml'')),
          Some (sampleDetails ''c'' ''bob'' (Some ''content of src/ci.yml'')),
          Some (sampleDetails ''d'' ''bob'' (Some ''content of src/ci.yml''))]"
    by simp
  have pairs: "runMultiplePromiseAllInLoop (\<lambda>i. True) (map Inr ?rs) =
     Inr [[Some (sampleResponse ''a'' ''bob'' (Some ''content of src/ci.yml'')),
           Some (sampleResponse ''c'' ''bob'' (Some ''content of src/ci.yml''))],
          [Some (sampleResponse ''d'' ''bob'' (Some ''content of src/ci.yml'')), None]]"
    by (simp add: runMultiplePromiseAllInLoop_def arrayGet_def promiseAll2_def rejection_def
        fulfilled_def)
  from chains pairs batch show ?thesis
    by (intro conjI)
qed

section \<open>The repository list\<close>

lemma sampleNodes_length: "length sampleNodes = 101"
  by (simp add: sampleNodes_def)

lemma sample_listRepositories:
  "listRepositories sampleUpstream = Inr (map toRepository (drop 1 sampleNodes))"
  by (simp add: listRepositories_def GitHubAPI_listRepositories_def sampleUpstream_def
      connection_nodes_def sampleNodes_length)

text \<open>
  C6, as amended. With an upstream that answers \<^verbatim>\<open>repositories(last: 100)\<close> as a
  connection does, \<^verbatim>\<open>listRepositories\<close> returns one record per node of the last page: the
  trailing 100 repositories of the upstream's order when the viewer has more, all of them
  otherwise, none for a viewer without repositories, and never more than 100; each record
  carries the node's name, owner login and disk usage.
\<close>

theorem listRepositories_returns_last_page:
  assumes "queryRepositories up (Last 100) = Inr (connection_nodes (Last 100) allRepos)"
  shows "listRepositories up = Inr (map toRepository (drop (length allRepos - 100) allRepos))
    \<and> (\<exists>rs. listRepositories up = Inr rs \<and> length rs = min 100 (length allRepos) \<and> length rs \<le> 100)
    \<and> (allRepos = [] \<longrightarrow> listRepositories up = Inr [])
    \<and> (length allRepos \<le> 100 \<longrightarrow> listRepositories up = Inr (map toRepository allRepos))
    \<and> summary_name (toRepository d) = node_name d
    \<and> summary_owner (toRepository d) = node_owner_login d
    \<and> summary_size (toRepository d) = node_diskUsage d"
proof -
  have "listRepositories up = Inr (map toRepository (drop (length allRepos - 100) allRepos))"
    using assms
    by (simp add: listRepositories_def GitHubAPI_listRepositories_def connection_nodes_def)
  then show ?thesis
    by (auto simp: toRepository_def)
qed

theorem listRepositories_returns_last_page_witness:
  "queryRepositories sampleUpstream (Last 100) = Inr (connection_nodes (Last 100) sampleNodes)
   \<and> length sampleNodes = 101
   \<and> listRepositories sampleUpstream = Inr (map toRepository (drop 1 sampleNodes))
   \<and> length (map toRepository (drop 1 sampleNodes)) = 100
   \<and> listRepositories (sampleUpstream\<lparr>queryRepositories := \<lambda>arg. Inr (connection_nodes arg [])\<rparr>) = Inr []"
proof -
  let ?none = "sampleUpstream\<lparr>queryRepositories := \<lambda>arg. Inr (connection_nodes arg [])\<rparr>"
  have q: "queryRepositories sampleUpstream (Last 100) = Inr (connection_nodes (Last 100) sampleNodes)"
    by (simp add: sampleUpstream_def)
  have q0: "queryRepositories ?none (Last 100) = Inr (connection_nodes (Last 100) [])"
    by simp
  from listRepositories_returns_last_page [OF q]
  have "listRepositories sampleUpstream = Inr (map toRepository (drop (length sampleNodes - 100) sampleNodes))"
    by (rule conjunct1)
  then have l: "listRepositories sampleUpstream = Inr (map toRepository (drop 1 sampleNodes))"
    by (simp add: sampleNodes_length)
  from listRepositories_returns_last_page [OF q0]
  have e: "listRepositories ?none = Inr []"
    by simp
  from q l e show ?thesis
    by (simp add: sampleNodes_length)
qed

text \<open>A viewer with 101 repositories: the page holds the trailing 100, so it is not the
  leading 100.\<close>

theorem listRepositories_first_page_counterexample:
  "length sampleNodes = 101
   \<and> queryRepositories sampleUpstream (Last 100) = Inr (connection_nodes (Last 100) sampleNodes)
   \<and> listRepositories sampleUpstream = Inr (map toRepository (drop 1 sampleNodes))
   \<and> listRepositories sampleUpstream \<noteq> Inr (map toRepository (take 100 sampleNodes))"
proof -
  have "map toRepository (drop 1 sampleNodes) ! 0 = toRepository (sampleNodes ! 1)"
    by (simp add: sampleNodes_length)
  then have a: "summary_size (map toRepository (drop 1 sampleNodes) ! 0) = 1"
    by (simp add: sampleNodes_def toRepository_def)
  have "map toRepository (take 100 sampleNodes) ! 0 = toRepository (sampleNodes ! 0)"
    by (simp add: sampleNodes_length)
  then have b: "summary_size (map toRepository (take 100 sampleNodes) ! 0) = 0"
    by (simp add: sampleNodes_def toRepository_def)
  from a b have "map toRepository (drop 1 sampleNodes) \<noteq> map toRepository (take 100 sampleNodes)"
    by (metis zero_neq_one)
  then have ne: "listRepositories sampleUpstream \<noteq> Inr (map toRepository (take 100 sampleNodes))"
    by (simp only: sample_listRepositories sum.inject not_False_eq_True)
  have q: "queryRepositories sampleUpstream (Last 100) = Inr (connection_nodes (Last 100) sampleNodes)"
    by (simp add: sampleUpstream_def)
  from sampleNodes_length q sample_listRepositories ne show ?thesis
    by (intro conjI)
qed


end
